theory Spec2Isabelle
  imports Complex_Main "HOL-Library.Word" "HOL-Library.Log_Nat"
begin

unbundle bit_operations_syntax

section \<open>Binary64 arithmetic\<close>

text \<open>
  The \<^verbatim>\<open>double\<close> of the C code is IEEE 754 binary64 with the default rounding, to
  nearest with ties to the even significand. A finite number is the significand
  \<open>m\<close> times \<open>2 ^ e\<close>, negated when the sign \<open>s\<close> is set, written \<open>DFinite s m e\<close>;
  the operations below return it in the one form the format has for it:
  \<open>2 ^ 52 \<le> m < 2 ^ 53\<close> and \<open>-1074 \<le> e \<le> 971\<close> for a normal number,
  \<open>0 < m < 2 ^ 52\<close> and \<open>e = -1074\<close> for a subnormal one, and \<open>m = 0\<close>, \<open>e = 0\<close> for
  the two zeros. The infinities and NaN are the other two constructors (the payload of
  a NaN is not modelled). Every operation of a C expression is rounded on its own, as on
  x86-64 and, without contraction into a fused multiply-add, on AArch64, the two
  targets of the vectorized kernels.
\<close>

datatype double = DFinite bool int int | DInfinity bool | DNaN

text \<open>Numerator and denominator of \<open>(a / b) / 2 ^ e\<close>.\<close>

definition scaled :: "int \<Rightarrow> int \<Rightarrow> int \<Rightarrow> int \<times> int" where
  "scaled a b e = (if 0 \<le> e then (a, b * 2 ^ nat e) else (a * 2 ^ nat (- e), b))"

text \<open>
  The exponent \<open>e\<close> with \<open>2 ^ 52 \<le> (a / b) / 2 ^ e < 2 ^ 53\<close>, for positive \<open>a\<close> and
  \<open>b\<close>: the bit lengths of \<open>a\<close> and \<open>b\<close> give it up to one.
\<close>

definition binade :: "int \<Rightarrow> int \<Rightarrow> int" where
  "binade a b =
     (let e0 = bitlen a - bitlen b - 53;
          (n, d) = scaled a b e0
      in if n div d < 2 ^ 53 then e0 else e0 + 1)"

text \<open>
  Rounding of the rational \<open>a / b\<close> (\<open>a \<ge> 0\<close>, \<open>b > 0\<close>) with the sign \<open>s\<close>: the
  quotient is cut at the exponent of its binade, or at -1074 in the subnormal range,
  and the remainder decides, a tie going to the even significand. A significand that
  reaches \<open>2 ^ 53\<close> moves to the next exponent, and an exponent above 971 is an
  overflow to infinity.
\<close>

definition round_double :: "bool \<Rightarrow> int \<Rightarrow> int \<Rightarrow> double" where
  "round_double s a b =
     (if a = 0 then DFinite s 0 0
      else
        (let e = max (binade a b) (- 1074);
             (n, d) = scaled a b e;
             q = n div d;
             r = n mod d;
             m = (if 2 * r < d then q
                  else if d < 2 * r then q + 1
                  else if even q then q else q + 1)
         in if m = 0 then DFinite s 0 0
            else if m = 2 ^ 53 then
              (if 971 < e + 1 then DInfinity s else DFinite s (2 ^ 52) (e + 1))
            else if 971 < e then DInfinity s
            else DFinite s m e))"

text \<open>
  The conversion \<^verbatim>\<open>(double) x\<close> of an \<^verbatim>\<open>int64_t\<close>; it is exact up to \<open>2 ^ 53\<close> in
  absolute value and rounds beyond. The literals \<^verbatim>\<open>1.0\<close>, \<^verbatim>\<open>2.0\<close>, \<^verbatim>\<open>-1.0\<close> and the
  \<^verbatim>\<open>0\<close> of the comparisons with zero are the conversions of 1, 2, -1 and 0.
\<close>

definition double_of_int64 :: "int \<Rightarrow> double" where
  "double_of_int64 x = round_double (x < 0) \<bar>x\<bar> 1"

text \<open>
  Division, multiplication and addition: the exact result, rounded. Division by a zero
  gives an infinity; zero by zero, infinity by infinity, zero times infinity and the
  sum of the two infinities give NaN. Adding a zero leaves a number as it is, and an
  exact sum of zero is the positive zero unless both terms are the negative zero.
\<close>

fun ddiv :: "double \<Rightarrow> double \<Rightarrow> double" where
  "ddiv (DFinite s a ea) (DFinite t b eb) =
     (if b = 0 then (if a = 0 then DNaN else DInfinity (s \<noteq> t))
      else (let (n, d) = scaled a b (eb - ea) in round_double (s \<noteq> t) n d))"
| "ddiv (DFinite s a ea) (DInfinity t) = DFinite (s \<noteq> t) 0 0"
| "ddiv (DInfinity s) (DFinite t b eb) = DInfinity (s \<noteq> t)"
| "ddiv (DInfinity s) (DInfinity t) = DNaN"
| "ddiv DNaN y = DNaN"
| "ddiv x DNaN = DNaN"

fun dmul :: "double \<Rightarrow> double \<Rightarrow> double" where
  "dmul (DFinite s a ea) (DFinite t b eb) =
     (let (n, d) = scaled (a * b) 1 (- (ea + eb)) in round_double (s \<noteq> t) n d)"
| "dmul (DFinite s a ea) (DInfinity t) = (if a = 0 then DNaN else DInfinity (s \<noteq> t))"
| "dmul (DInfinity s) (DFinite t b eb) = (if b = 0 then DNaN else DInfinity (s \<noteq> t))"
| "dmul (DInfinity s) (DInfinity t) = DInfinity (s \<noteq> t)"
| "dmul DNaN y = DNaN"
| "dmul x DNaN = DNaN"

text \<open>The number \<open>DFinite s m e\<close> as a multiple of \<open>2 ^ c\<close>, for \<open>c \<le> e\<close>.\<close>

definition aligned :: "bool \<Rightarrow> int \<Rightarrow> int \<Rightarrow> int \<Rightarrow> int" where
  "aligned s m e c = (if s then - (m * 2 ^ nat (e - c)) else m * 2 ^ nat (e - c))"

fun dadd :: "double \<Rightarrow> double \<Rightarrow> double" where
  "dadd (DFinite s a ea) (DFinite t b eb) =
     (if b = 0 then (if a = 0 then DFinite (s \<and> t) 0 0 else DFinite s a ea)
      else if a = 0 then DFinite t b eb
      else (let c = min ea eb;
                x = aligned s a ea c + aligned t b eb c;
                (n, d) = scaled \<bar>x\<bar> 1 (- c)
            in if x = 0 then DFinite False 0 0 else round_double (x < 0) n d))"
| "dadd (DFinite s a ea) (DInfinity t) = DInfinity t"
| "dadd (DInfinity s) (DFinite t b eb) = DInfinity s"
| "dadd (DInfinity s) (DInfinity t) = (if s = t then DInfinity s else DNaN)"
| "dadd DNaN y = DNaN"
| "dadd x DNaN = DNaN"

text \<open>
  The comparisons \<^verbatim>\<open><\<close> and \<^verbatim>\<open>==\<close> of C, and \<^verbatim>\<open><=\<close>: every comparison with a NaN is
  false, and the two zeros are equal.
\<close>

fun dlt :: "double \<Rightarrow> double \<Rightarrow> bool" where
  "dlt (DFinite s a ea) (DFinite t b eb) =
     (let c = min ea eb in aligned s a ea c < aligned t b eb c)"
| "dlt (DFinite s a ea) (DInfinity t) = (\<not> t)"
| "dlt (DInfinity s) (DFinite t b eb) = s"
| "dlt (DInfinity s) (DInfinity t) = (s \<and> \<not> t)"
| "dlt DNaN y = False"
| "dlt x DNaN = False"

fun deq :: "double \<Rightarrow> double \<Rightarrow> bool" where
  "deq (DFinite s a ea) (DFinite t b eb) =
     (let c = min ea eb in aligned s a ea c = aligned t b eb c)"
| "deq (DFinite s a ea) (DInfinity t) = False"
| "deq (DInfinity s) (DFinite t b eb) = False"
| "deq (DInfinity s) (DInfinity t) = (s = t)"
| "deq DNaN y = False"
| "deq x DNaN = False"

definition dle :: "double \<Rightarrow> double \<Rightarrow> bool" where
  "dle x y = (dlt x y \<or> deq x y)"

text \<open>
  The conversion of a double to \<^verbatim>\<open>int64_t\<close>: truncation towards zero. The behaviour
  is undefined (\<open>None\<close>) for a NaN, an infinity, and a number whose integral part is
  not an \<^verbatim>\<open>int64_t\<close>.
\<close>

fun int64_of_double :: "double \<Rightarrow> int option" where
  "int64_of_double (DFinite s m e) =
     (let t = (if 0 \<le> e then m * 2 ^ nat e else m div 2 ^ nat (- e));
          v = (if s then - t else t)
      in if - (2 ^ 63) \<le> v \<and> v < 2 ^ 63 then Some v else None)"
| "int64_of_double (DInfinity s) = None"
| "int64_of_double DNaN = None"

text \<open>The real number that a finite double stands for.\<close>

fun dval :: "double \<Rightarrow> real" where
  "dval (DFinite s m e) = (if s then - 1 else 1) * (real_of_int m * 2 ^ nat e / 2 ^ nat (- e))"
| "dval (DInfinity s) = 0"
| "dval DNaN = 0"


section \<open>Slide handle and level model (openslide.c)\<close>

text \<open>
  A level of the pyramid, \<^verbatim>\<open>struct _openslide_level\<close>. The C fields are
  \<^verbatim>\<open>downsample\<close> (double), \<^verbatim>\<open>w\<close>, \<^verbatim>\<open>h\<close>, \<^verbatim>\<open>tile_w\<close>, \<^verbatim>\<open>tile_h\<close> (int64_t); they carry
  the prefix \<open>level_\<close> here because record fields are global constants.
  The downsample is a binary64 number, with the arithmetic and the comparisons of the
  section above.
\<close>

record openslide_level =
  level_downsample :: double
  level_w :: int
  level_h :: int
  level_tile_w :: int
  level_tile_h :: int

text \<open>
  The handle, \<^verbatim>\<open>openslide_t\<close>, restricted to the fields the functions below read or
  write. \<^verbatim>\<open>levels\<close> is a C array; reading it outside its bounds is undefined
  behaviour and appears in the model as the result \<open>None\<close> of \<open>level_at\<close>.
  \<^verbatim>\<open>error\<close> is the sticky error message (NULL is \<open>None\<close>).
\<close>

record openslide_t =
  osr_levels :: "openslide_level list"
  osr_level_count :: int
  osr_level_count_all :: int
  osr_channel_count :: int
  osr_error :: "string option"

definition level_at :: "openslide_t \<Rightarrow> int \<Rightarrow> openslide_level option" where
  "level_at osr i =
     (if 0 \<le> i \<and> nat i < length (osr_levels osr) then Some (osr_levels osr ! nat i)
      else None)"

definition level_in_range :: "openslide_t \<Rightarrow> int \<Rightarrow> bool" where
  "level_in_range osr level =
     (if level < 0 then False
      else if level > osr_level_count osr - 1 then False
      else True)"

text \<open>
  Modelled from the spec: \<^verbatim>\<open>openslide_get_error\<close> and \<^verbatim>\<open>_openslide_propagate_error\<close>
  live in openslide-error.c, which is not among the sources. The spec describes the
  sticky error as set at most once, first error wins, never overwritten. A NULL
  \<^verbatim>\<open>GError\<close> (here \<open>None\<close>) carries no message and leaves the handle as it is.
\<close>

definition openslide_get_error :: "openslide_t \<Rightarrow> string option" where
  "openslide_get_error osr = osr_error osr"

definition openslide_propagate_error :: "openslide_t \<Rightarrow> string option \<Rightarrow> openslide_t" where
  "openslide_propagate_error osr err =
     (case err of
        None \<Rightarrow> osr
      | Some msg \<Rightarrow>
          (case osr_error osr of
             None \<Rightarrow> osr\<lparr>osr_error := Some msg\<rparr>
           | Some _ \<Rightarrow> osr))"

subsection \<open>Level queries\<close>

definition openslide_get_level_dimensions :: "openslide_t \<Rightarrow> int \<Rightarrow> (int \<times> int) option" where
  "openslide_get_level_dimensions osr level =
     (if openslide_get_error osr \<noteq> None then Some (-1, -1)
      else if \<not> level_in_range osr level then Some (-1, -1)
      else (case level_at osr level of
              None \<Rightarrow> None
            | Some l \<Rightarrow> Some (level_w l, level_h l)))"

definition openslide_get_level0_dimensions :: "openslide_t \<Rightarrow> (int \<times> int) option" where
  "openslide_get_level0_dimensions osr = openslide_get_level_dimensions osr 0"

text \<open>
  The scan of \<^verbatim>\<open>openslide_get_best_level_for_downsample\<close>:
  \<^verbatim>\<open>for (int32_t i = 1; i < osr->level_count; i++)\<close>, returning \<^verbatim>\<open>i - 1\<close> at the
  first level whose downsample exceeds the target and \<^verbatim>\<open>level_count - 1\<close> when the
  loop runs out.
\<close>

function best_level_scan :: "openslide_t \<Rightarrow> double \<Rightarrow> int \<Rightarrow> int option" where
  "best_level_scan osr downsample i =
     (if i < osr_level_count osr then
        (case level_at osr i of
           None \<Rightarrow> None
         | Some l \<Rightarrow>
             if dlt downsample (level_downsample l) then Some (i - 1)
             else best_level_scan osr downsample (i + 1))
      else Some (osr_level_count osr - 1))"
  by pat_completeness auto
termination
  by (relation "measure (\<lambda>(osr, downsample, i). nat (osr_level_count osr - i))") auto

declare best_level_scan.simps [simp del]

definition openslide_get_best_level_for_downsample :: "openslide_t \<Rightarrow> double \<Rightarrow> int option" where
  "openslide_get_best_level_for_downsample osr downsample =
     (if openslide_get_error osr \<noteq> None then Some (-1)
      else (case level_at osr 0 of
              None \<Rightarrow> None
            | Some l0 \<Rightarrow>
                if dlt downsample (level_downsample l0) then Some 0
                else best_level_scan osr downsample 1))"

definition openslide_get_level_downsample :: "openslide_t \<Rightarrow> int \<Rightarrow> double option" where
  "openslide_get_level_downsample osr level =
     (if openslide_get_error osr \<noteq> None \<or> \<not> level_in_range osr level
      then Some (double_of_int64 (- 1))
      else map_option level_downsample (level_at osr level))"

subsection \<open>Opening a slide\<close>

text \<open>
  The part of \<^verbatim>\<open>openslide_open\<close> after the backend has filled in the handle.
  First the missing downsamples: level 0 gets 1.0 when it carries the zero sentinel,
  and each later level with the sentinel gets
  \<^verbatim>\<open>(((double) blh / (double) l->h) + ((double) blw / (double) l->w)) / 2.0\<close>.
\<close>

definition set_level :: "openslide_t \<Rightarrow> int \<Rightarrow> openslide_level \<Rightarrow> openslide_t" where
  "set_level osr i l = osr\<lparr>osr_levels := (osr_levels osr)[nat i := l]\<rparr>"

definition fix_level0_downsample :: "openslide_t \<Rightarrow> openslide_t option" where
  "fix_level0_downsample osr =
     (if osr_level_count osr \<noteq> 0 then
        (case level_at osr 0 of
           None \<Rightarrow> None
         | Some l0 \<Rightarrow>
             if deq (level_downsample l0) (double_of_int64 0)
             then Some (set_level osr 0 (l0\<lparr>level_downsample := double_of_int64 1\<rparr>))
             else Some osr)
      else Some osr)"

function compute_downsamples_loop :: "int \<Rightarrow> int \<Rightarrow> openslide_t \<Rightarrow> int \<Rightarrow> openslide_t option" where
  "compute_downsamples_loop blw blh osr i =
     (if i < osr_level_count osr then
        (case level_at osr i of
           None \<Rightarrow> None
         | Some l \<Rightarrow>
             if deq (level_downsample l) (double_of_int64 0) then
               compute_downsamples_loop blw blh
                 (set_level osr i
                    (l\<lparr>level_downsample :=
                         ddiv (dadd (ddiv (double_of_int64 blh) (double_of_int64 (level_h l)))
                                    (ddiv (double_of_int64 blw) (double_of_int64 (level_w l))))
                              (double_of_int64 2)\<rparr>))
                 (i + 1)
             else compute_downsamples_loop blw blh osr (i + 1))
      else Some osr)"
  by pat_completeness auto
termination
  by (relation "measure (\<lambda>(blw, blh, osr, i). nat (osr_level_count osr - i))")
     (auto simp: set_level_def)

declare compute_downsamples_loop.simps [simp del]

definition compute_downsamples :: "openslide_t \<Rightarrow> openslide_t option" where
  "compute_downsamples osr =
     (case openslide_get_level0_dimensions osr of
        None \<Rightarrow> None
      | Some (blw, blh) \<Rightarrow>
          (case fix_level0_downsample osr of
             None \<Rightarrow> None
           | Some osr1 \<Rightarrow> compute_downsamples_loop blw blh osr1 1))"

text \<open>
  Then the check: \<^verbatim>\<open>for (int32_t i = 1; i < osr->level_count; i++)\<close>, with
  \<^verbatim>\<open>return NULL\<close> at the first level whose downsample is below its predecessor's.
  The result is \<open>Some True\<close> when the loop runs to its end.
\<close>

function check_downsamples_loop :: "openslide_t \<Rightarrow> int \<Rightarrow> bool option" where
  "check_downsamples_loop osr i =
     (if i < osr_level_count osr then
        (case (level_at osr i, level_at osr (i - 1)) of
           (Some l, Some lp) \<Rightarrow>
             if dlt (level_downsample l) (level_downsample lp) then Some False
             else check_downsamples_loop osr (i + 1)
         | _ \<Rightarrow> None)
      else Some True)"
  by pat_completeness auto
termination
  by (relation "measure (\<lambda>(osr, i). nat (osr_level_count osr - i))") auto

declare check_downsamples_loop.simps [simp del]

text \<open>
  What \<^verbatim>\<open>openslide_open\<close> meets before that: the format detection, the one-time
  pixman check and the backend's \<^verbatim>\<open>open\<close>. They are external to the file and are
  inputs of the model: \<open>env_detected\<close> says whether \<^verbatim>\<open>detect_format\<close> found a
  format, \<open>env_pixman_works\<close> is the result of \<^verbatim>\<open>verify_pixman_works\<close>, and
  \<open>env_open_backend\<close> is either the error message of a failed \<^verbatim>\<open>open_backend\<close> or
  the handle as the backend populated it. The property table, the associated images and
  the cache binding that a successful open also fills in are not modelled.

  The caller receives \<open>NULL\<close> or a handle; \<open>None\<close> stands for an out-of-bounds
  read of the level array on the way.
\<close>

record open_env =
  env_detected :: bool
  env_pixman_works :: bool
  env_open_backend :: "string + openslide_t"

datatype open_result = NULL | Handle openslide_t

definition new_osr :: openslide_t where
  "new_osr = \<lparr>osr_levels = [], osr_level_count = 0, osr_level_count_all = 0,
              osr_channel_count = 0, osr_error = None\<rparr>"

definition openslide_open :: "open_env \<Rightarrow> open_result option" where
  "openslide_open env =
     (if \<not> env_detected env then Some NULL
      else if \<not> env_pixman_works env then
        Some (Handle (openslide_propagate_error new_osr
          (Some ''pixman 0.38.x does not render correctly; upgrade or downgrade pixman'')))
      else (case env_open_backend env of
              Inl msg \<Rightarrow> Some (Handle (openslide_propagate_error new_osr (Some msg)))
            | Inr osr \<Rightarrow>
                (case compute_downsamples osr of
                   None \<Rightarrow> None
                 | Some osr' \<Rightarrow>
                     (case check_downsamples_loop osr' 1 of
                        None \<Rightarrow> None
                      | Some False \<Rightarrow> Some NULL
                      | Some True \<Rightarrow> Some (Handle osr')))))"

subsection \<open>Notions used to state the properties of the level model\<close>

text \<open>The downsample stored for level \<open>i\<close> of a handle.\<close>

definition ds_at :: "openslide_t \<Rightarrow> int \<Rightarrow> double" where
  "ds_at osr i = level_downsample (osr_levels osr ! nat i)"

text \<open>
  The downsamples of a handle are non-decreasing with the level index: each level's is
  \<^verbatim>\<open><=\<close> its successor's. No NaN is \<^verbatim>\<open><=\<close> anything.
\<close>

definition levels_ordered :: "openslide_t \<Rightarrow> bool" where
  "levels_ordered osr =
     (\<forall>i. 1 \<le> i \<and> i < osr_level_count osr \<longrightarrow> dle (ds_at osr (i - 1)) (ds_at osr i))"

text \<open>
  What the check loop of \<^verbatim>\<open>openslide_open\<close> tests: no level has a downsample
  \<^verbatim>\<open><\<close> its predecessor's.
\<close>

definition no_level_below_predecessor :: "openslide_t \<Rightarrow> bool" where
  "no_level_below_predecessor osr =
     (\<forall>i. 1 \<le> i \<and> i < osr_level_count osr \<longrightarrow> \<not> dlt (ds_at osr i) (ds_at osr (i - 1)))"

definition no_nan_downsample :: "openslide_t \<Rightarrow> bool" where
  "no_nan_downsample osr = (\<forall>i. 0 \<le> i \<and> i < osr_level_count osr \<longrightarrow> ds_at osr i \<noteq> DNaN)"

text \<open>
  The value the open path stores for a level with the zero sentinel, as a function of
  level 0's width and height and of the level.
\<close>

definition inferred_downsample :: "int \<Rightarrow> int \<Rightarrow> openslide_level \<Rightarrow> double" where
  "inferred_downsample blw blh l =
     ddiv (dadd (ddiv (double_of_int64 blh) (double_of_int64 (level_h l)))
                (ddiv (double_of_int64 blw) (double_of_int64 (level_w l))))
          (double_of_int64 2)"

text \<open>
  The specification's wording for the same value, "the geometric mean of width and
  height ratios against level 0", in real numbers. This definition follows the
  specification, not the source.
\<close>

definition spec_geometric_mean_downsample :: "int \<Rightarrow> int \<Rightarrow> openslide_level \<Rightarrow> real" where
  "spec_geometric_mean_downsample blw blh l =
     sqrt ((real_of_int blw / real_of_int (level_w l)) *
           (real_of_int blh / real_of_int (level_h l)))"

text \<open>
  Concrete levels and handles for the examples: \<open>level_of d w h\<close> has the whole number
  \<open>d\<close> as its downsample, \<open>level_with ds w h\<close> any double.
\<close>

definition level_with :: "double \<Rightarrow> int \<Rightarrow> int \<Rightarrow> openslide_level" where
  "level_with ds w h =
     \<lparr>level_downsample = ds, level_w = w, level_h = h, level_tile_w = 0, level_tile_h = 0\<rparr>"

definition level_of :: "int \<Rightarrow> int \<Rightarrow> int \<Rightarrow> openslide_level" where
  "level_of d w h = level_with (double_of_int64 d) w h"

definition osr_of :: "openslide_level list \<Rightarrow> int \<Rightarrow> openslide_t" where
  "osr_of ls channels =
     \<lparr>osr_levels = ls, osr_level_count = int (length ls),
      osr_level_count_all = int (length ls), osr_channel_count = channels,
      osr_error = None\<rparr>"

section \<open>Region reader (openslide.c)\<close>

text \<open>
  Buffers are lists of bytes; a pointer that may be \<^verbatim>\<open>NULL\<close> is an optional buffer.
  An access outside a buffer is undefined behaviour in C; the functions below return
  \<open>None\<close> there, and also where a \<^verbatim>\<open>g_assert\<close> aborts.
  The 64-bit integers of the region reader are modelled as unbounded integers
  (overflow of \<^verbatim>\<open>w * h * 4\<close> is outside the model); where one is converted to
  double or a double to \<^verbatim>\<open>int64_t\<close> the conversions of the section on binary64
  are used.
\<close>

type_synonym bytes = "8 word list"

text \<open>\<^verbatim>\<open>memset(p, 0, n)\<close>.\<close>

definition memset0 :: "bytes \<Rightarrow> int \<Rightarrow> bytes option" where
  "memset0 p n =
     (if 0 \<le> n \<and> nat n \<le> length p then Some (replicate (nat n) 0 @ drop (nat n) p)
      else None)"

text \<open>\<^verbatim>\<open>if (p) { memset(p, 0, n); }\<close> on a pointer that may be \<^verbatim>\<open>NULL\<close>.\<close>

definition memset0_opt :: "bytes option \<Rightarrow> int \<Rightarrow> bytes option option" where
  "memset0_opt p n =
     (case p of
        None \<Rightarrow> Some None
      | Some m \<Rightarrow> map_option Some (memset0 m n))"

datatype cairo_format = CAIRO_FORMAT_ARGB32 | CAIRO_FORMAT_A8 | CAIRO_FORMAT_RGB16_565

text \<open>
  \<^verbatim>\<open>CAIRO_STRIDE_FOR_WIDTH_BPP(w, bpp)\<close> of openslide-image.h,
  \<^verbatim>\<open>((((bpp)*(w)+7)/8 + CAIRO_STRIDE_ALIGNMENT-1) & -CAIRO_STRIDE_ALIGNMENT)\<close> with an
  alignment of 4, for a width that is not negative: the row's bytes rounded up to a
  multiple of 4. \<^verbatim>\<open>cairo_format_stride_for_width\<close> belongs to the cairo library; it
  is taken to compute the same macro, which the header copies from cairo.
\<close>

definition CAIRO_STRIDE_FOR_WIDTH_BPP :: "int \<Rightarrow> int \<Rightarrow> int" where
  "CAIRO_STRIDE_FOR_WIDTH_BPP w bpp = (((bpp * w + 7) div 8 + 4 - 1) div 4) * 4"

definition format_bpp :: "cairo_format \<Rightarrow> int" where
  "format_bpp fmt =
     (case fmt of
        CAIRO_FORMAT_ARGB32 \<Rightarrow> 32
      | CAIRO_FORMAT_A8 \<Rightarrow> 8
      | CAIRO_FORMAT_RGB16_565 \<Rightarrow> 16)"

definition cairo_format_stride_for_width :: "cairo_format \<Rightarrow> int \<Rightarrow> int" where
  "cairo_format_stride_for_width fmt w = CAIRO_STRIDE_FOR_WIDTH_BPP w (format_bpp fmt)"

text \<open>
  The conversion of an \<^verbatim>\<open>int64_t\<close> to the \<^verbatim>\<open>int\<close> of a cairo parameter: the
  value modulo \<open>2 ^ 32\<close>, as GCC and Clang define it.
\<close>

definition c_int :: "int \<Rightarrow> int" where
  "c_int n = sint (word_of_int n :: 32 word)"

text \<open>
  What the region reader hands to the backend's \<^verbatim>\<open>paint_region\<close>: the cairo surface
  it created (format, the offset of its data in the buffer, and the width, height and
  stride, which are \<^verbatim>\<open>int\<close> parameters of
  \<^verbatim>\<open>cairo_image_surface_create_for_data\<close>), the translation of the cairo context
  (the two parameters of \<^verbatim>\<open>cairo_translate\<close> are doubles), and the rectangle to
  paint. Without a destination the surface is cairo's nil surface of width and height
  0.
\<close>

record paint_args =
  pa_format :: cairo_format
  pa_offset :: int
  pa_surface_w :: int
  pa_surface_h :: int
  pa_stride :: int
  pa_tx :: double
  pa_ty :: double
  pa_x :: int
  pa_y :: int
  pa_level :: int
  pa_w :: int
  pa_h :: int

text \<open>
  The collaborators that are not part of the file, as parameters of the model:
  \<^item> \<open>paint_region\<close> is the backend's capability. It receives the memory behind the
    surface and returns its verdict, the \<^verbatim>\<open>GError\<close> it set, and the memory as it
    left it;
  \<^item> \<open>check_cairo_status\<close> is \<^verbatim>\<open>_openslide_check_cairo_status\<close>: \<open>None\<close> when
    the cairo context is in good state, the message otherwise;
  \<^item> \<open>try_malloc_ok\<close> says whether \<^verbatim>\<open>g_try_malloc\<close> finds the bytes asked for, and
    \<open>malloc_fill\<close> is the indeterminate content of the new block.
\<close>

record backend =
  paint_region :: "paint_args \<Rightarrow> bytes \<Rightarrow> bool \<times> string option \<times> bytes"
  check_cairo_status :: "paint_args \<Rightarrow> string option"
  try_malloc_ok :: "int \<Rightarrow> bool"
  malloc_fill :: "nat \<Rightarrow> 8 word"

text \<open>\<^verbatim>\<open>g_try_malloc(n)\<close>; glib returns \<^verbatim>\<open>NULL\<close> for a request of 0 bytes.\<close>

definition g_try_malloc :: "backend \<Rightarrow> int \<Rightarrow> bytes option" where
  "g_try_malloc ops n =
     (if n \<le> 0 \<or> \<not> try_malloc_ok ops n then None
      else Some (map (malloc_fill ops) [0 ..< nat n]))"

text \<open>
  The clipping of negative coordinates, shared by \<^verbatim>\<open>read_region_area\<close> and
  \<^verbatim>\<open>read_region_area_gray\<close>:
  \<^verbatim>\<open>if (x < 0) { tx = (-x) / ds; x = 0; w -= tx; }\<close> and the same for \<^verbatim>\<open>y\<close>.
  \<^verbatim>\<open>-x\<close> is converted to double, divided, and the quotient converted to
  \<^verbatim>\<open>int64_t\<close>. The result is \<open>(tx, x, w)\<close>.
\<close>

definition clip_negative :: "double \<Rightarrow> int \<Rightarrow> int \<Rightarrow> (int \<times> int \<times> int) option" where
  "clip_negative ds x w =
     (if x < 0 then
        (case int64_of_double (ddiv (double_of_int64 (- x)) ds) of
           None \<Rightarrow> None
         | Some tx \<Rightarrow> Some (tx, 0, w - tx))
      else Some (0, x, w))"

text \<open>The memory behind a surface: that of the buffer, none for the nil surface.\<close>

definition surface_memory :: "bytes option \<Rightarrow> bytes" where
  "surface_memory dest = (case dest of None \<Rightarrow> [] | Some m \<Rightarrow> m)"

definition painted :: "bytes option \<Rightarrow> bytes \<Rightarrow> bytes option" where
  "painted dest m = (case dest of None \<Rightarrow> None | Some _ \<Rightarrow> Some m)"

text \<open>
  The surface and the fresh cairo context on it, before any translation:
  \<^verbatim>\<open>cairo_image_surface_create_for_data(dest, fmt, w, h, stride)\<close> for a
  destination, \<^verbatim>\<open>cairo_image_surface_create(fmt, 0, 0)\<close> without one.
\<close>

definition cairo_create_on ::
  "cairo_format \<Rightarrow> bytes option \<Rightarrow> int \<Rightarrow> int \<Rightarrow> int \<Rightarrow> int \<Rightarrow> int \<Rightarrow> int \<Rightarrow> int \<Rightarrow> paint_args" where
  "cairo_create_on fmt dest offset stride x y level w h =
     (case dest of
        Some _ \<Rightarrow>
          \<lparr>pa_format = fmt, pa_offset = offset,
           pa_surface_w = c_int w, pa_surface_h = c_int h, pa_stride = c_int stride,
           pa_tx = double_of_int64 0, pa_ty = double_of_int64 0,
           pa_x = x, pa_y = y, pa_level = level, pa_w = w, pa_h = h\<rparr>
      | None \<Rightarrow>
          \<lparr>pa_format = fmt, pa_offset = 0,
           pa_surface_w = 0, pa_surface_h = 0, pa_stride = 0,
           pa_tx = double_of_int64 0, pa_ty = double_of_int64 0,
           pa_x = x, pa_y = y, pa_level = level, pa_w = w, pa_h = h\<rparr>)"

text \<open>
  \<^verbatim>\<open>read_region_area\<close>. The result is the function's return value, the \<^verbatim>\<open>GError\<close>
  it leaves in \<^verbatim>\<open>*err\<close>, and the buffer.
\<close>

definition read_region_area ::
  "backend \<Rightarrow> openslide_t \<Rightarrow> bytes option \<Rightarrow> int \<Rightarrow> int \<Rightarrow> int \<Rightarrow> int \<Rightarrow> int \<Rightarrow> int \<Rightarrow> int \<Rightarrow>
   (bool \<times> string option \<times> bytes option) option" where
  "read_region_area ops osr dest offset stride x y level w h =
     (let surface = cairo_create_on CAIRO_FORMAT_ARGB32 dest offset stride x y level w h
      in if level_in_range osr level then
           (case level_at osr level of
              None \<Rightarrow> None
            | Some l \<Rightarrow>
                (case clip_negative (level_downsample l) x w of
                   None \<Rightarrow> None
                 | Some (tx, x', w') \<Rightarrow>
                     (case clip_negative (level_downsample l) y h of
                        None \<Rightarrow> None
                      | Some (ty, y', h') \<Rightarrow>
                          (let cr = surface\<lparr>pa_tx := double_of_int64 tx,
                                            pa_ty := double_of_int64 ty,
                                            pa_x := x', pa_y := y',
                                            pa_w := w', pa_h := h'\<rparr>
                           in if w' > 0 \<and> h' > 0 then
                                (case paint_region ops cr (surface_memory dest) of
                                   (ok, err, m) \<Rightarrow>
                                     if \<not> ok then Some (False, err, painted dest m)
                                     else (case check_cairo_status ops cr of
                                             Some msg \<Rightarrow> Some (False, Some msg, painted dest m)
                                           | None \<Rightarrow> Some (True, None, painted dest m)))
                              else (case check_cairo_status ops cr of
                                      Some msg \<Rightarrow> Some (False, Some msg, dest)
                                    | None \<Rightarrow> Some (True, None, dest))))))
         else (case check_cairo_status ops surface of
                 Some msg \<Rightarrow> Some (False, Some msg, dest)
               | None \<Rightarrow> Some (True, None, dest)))"

text \<open>
  The grid of sub-tiles in the order of the two nested loops,
  \<^verbatim>\<open>for (row = 0; row < (h + d - 1) / d; row++) for (col = 0; col < (w + d - 1) / d; col++)\<close>
  with \<^verbatim>\<open>d = 4096\<close>.
\<close>

definition tile_grid :: "int \<Rightarrow> int \<Rightarrow> (int \<times> int) list" where
  "tile_grid w h =
     concat (map (\<lambda>row. map (\<lambda>col. (row, col)) [0 .. (w + 4096 - 1) div 4096 - 1])
                 [0 .. (h + 4096 - 1) div 4096 - 1])"

text \<open>
  The surface coordinate of a tile, \<^verbatim>\<open>int64_t sx = x + col * d * ds;\<close>: the product
  \<^verbatim>\<open>col * d\<close> of two \<^verbatim>\<open>int64_t\<close> is converted to double and multiplied by
  \<^verbatim>\<open>ds\<close>, \<^verbatim>\<open>x\<close> is converted to double and added, and the sum is converted to
  \<^verbatim>\<open>int64_t\<close>. The second argument is the product \<^verbatim>\<open>col * d\<close>.
\<close>

definition tile_coord :: "int \<Rightarrow> int \<Rightarrow> double \<Rightarrow> int option" where
  "tile_coord x cd ds =
     int64_of_double (dadd (double_of_int64 x) (dmul (double_of_int64 cd) ds))"

text \<open>
  The body of the loops of \<^verbatim>\<open>openslide_read_region\<close>, tile after tile, with the
  \<^verbatim>\<open>return\<close> on the first failure: the error goes to the handle and the whole
  destination is cleared again.
\<close>

fun read_region_tiles ::
  "backend \<Rightarrow> int \<Rightarrow> int \<Rightarrow> int \<Rightarrow> int \<Rightarrow> int \<Rightarrow> double \<Rightarrow> (int \<times> int) list \<Rightarrow>
   openslide_t \<Rightarrow> bytes option \<Rightarrow> (openslide_t \<times> bytes option) option" where
  "read_region_tiles ops x y level w h ds [] osr dest = Some (osr, dest)"
| "read_region_tiles ops x y level w h ds ((row, col) # tiles) osr dest =
     (case tile_coord x (col * 4096) ds of
        None \<Rightarrow> None
      | Some sx \<Rightarrow>
          (case tile_coord y (row * 4096) ds of
             None \<Rightarrow> None
           | Some sy \<Rightarrow>
               (let sw = min (w - col * 4096) 4096;
                    sh = min (h - row * 4096) 4096
                in case read_region_area ops osr dest (w * row * 4096 + col * 4096) (w * 4)
                          sx sy level sw sh of
                     None \<Rightarrow> None
                   | Some (ok, tmp_err, dest') \<Rightarrow>
                       if \<not> ok then
                         (case memset0_opt dest' (w * h * 4) of
                            None \<Rightarrow> None
                          | Some cleared \<Rightarrow>
                              Some (openslide_propagate_error osr tmp_err, cleared))
                       else read_region_tiles ops x y level w h ds tiles osr dest')))"

text \<open>
  \<^verbatim>\<open>openslide_read_region\<close>. The result is the handle and the destination buffer
  when the call returns. The numbers that the C code formats into its messages are left
  out of the messages.
\<close>

definition openslide_read_region ::
  "backend \<Rightarrow> openslide_t \<Rightarrow> bytes option \<Rightarrow> int \<Rightarrow> int \<Rightarrow> int \<Rightarrow> int \<Rightarrow> int \<Rightarrow>
   (openslide_t \<times> bytes option) option" where
  "openslide_read_region ops osr dest x y level w h =
     (if w < 0 \<or> h < 0 then
        Some (openslide_propagate_error osr
                (Some ''negative width or negative height not allowed''), dest)
      else if osr_channel_count osr > 1 then
        Some (openslide_propagate_error osr
                (Some ''openslide_read_region() can only read single channel slide''), dest)
      else (case memset0_opt dest (w * h * 4) of
              None \<Rightarrow> None
            | Some dest0 \<Rightarrow>
                if openslide_get_error osr \<noteq> None then Some (osr, dest0)
                else (case openslide_get_level_downsample osr level of
                        None \<Rightarrow> None
                      | Some ds \<Rightarrow>
                          read_region_tiles ops x y level w h ds (tile_grid w h) osr dest0)))"

subsection \<open>Gray reads\<close>

text \<open>
  \<^verbatim>\<open>_openslide_del_row_padding\<close> of openslide-image.c: the two assertions, then
  \<^verbatim>\<open>h\<close> rows of \<^verbatim>\<open>w_bytes\<close> bytes copied from a source with rows \<^verbatim>\<open>stride\<close> apart.
\<close>

definition memcpy_at :: "bytes \<Rightarrow> int \<Rightarrow> bytes \<Rightarrow> int \<Rightarrow> int \<Rightarrow> bytes option" where
  "memcpy_at dst dst_off src src_off n =
     (if 0 \<le> n \<and> 0 \<le> dst_off \<and> 0 \<le> src_off \<and>
         nat (src_off + n) \<le> length src \<and> nat (dst_off + n) \<le> length dst
      then Some (take (nat dst_off) dst @ take (nat n) (drop (nat src_off) src) @
                 drop (nat (dst_off + n)) dst)
      else None)"

fun del_row_padding_rows :: "int \<Rightarrow> int \<Rightarrow> bytes \<Rightarrow> int list \<Rightarrow> bytes \<Rightarrow> bytes option" where
  "del_row_padding_rows stride w_bytes src [] dst = Some dst"
| "del_row_padding_rows stride w_bytes src (row # rows) dst =
     (case memcpy_at dst (row * w_bytes) src (row * stride) w_bytes of
        None \<Rightarrow> None
      | Some dst' \<Rightarrow> del_row_padding_rows stride w_bytes src rows dst')"

definition openslide_del_row_padding ::
  "bytes \<Rightarrow> int \<Rightarrow> bytes \<Rightarrow> int \<Rightarrow> int \<Rightarrow> int \<Rightarrow> int \<Rightarrow> bytes option" where
  "openslide_del_row_padding src src_len dst dst_len pixel_bytes w h =
     (let stride = CAIRO_STRIDE_FOR_WIDTH_BPP w (pixel_bytes * 8);
          w_bytes = w * pixel_bytes
      in if h * stride \<noteq> src_len then None
         else if h * w_bytes \<noteq> dst_len then None
         else del_row_padding_rows stride w_bytes src [0 .. h - 1] dst)"

text \<open>
  \<^verbatim>\<open>read_region_area_gray\<close>. Unlike its full-color sibling it writes the handle: a
  level above \<^verbatim>\<open>level_count_all - 1\<close> puts "invalid level" into the sticky error.
  A negative level is not tested before \<^verbatim>\<open>osr->levels[level]\<close> is read. The result
  is the return value, \<^verbatim>\<open>*err\<close>, the handle and the buffer.
\<close>

definition read_region_area_gray ::
  "backend \<Rightarrow> openslide_t \<Rightarrow> bytes option \<Rightarrow> int \<Rightarrow> int \<Rightarrow> int \<Rightarrow> int \<Rightarrow> int \<Rightarrow> int \<Rightarrow> int \<Rightarrow> int \<Rightarrow>
   (bool \<times> string option \<times> openslide_t \<times> bytes option) option" where
  "read_region_area_gray ops osr dest offset stride pixel_bytes x y level w h =
     (if pixel_bytes \<noteq> 1 \<and> pixel_bytes \<noteq> 2 then Some (False, None, osr, dest)
      else
        (let cr_fmt = (if pixel_bytes = 1 then CAIRO_FORMAT_A8 else CAIRO_FORMAT_RGB16_565);
             surface = cairo_create_on cr_fmt dest offset stride x y level w h
         in if level > osr_level_count_all osr - 1 then
              Some (False, None,
                    openslide_propagate_error osr (Some ''invalid level''), dest)
            else
              (case level_at osr level of
                 None \<Rightarrow> None
               | Some l \<Rightarrow>
                   (case clip_negative (level_downsample l) x w of
                      None \<Rightarrow> None
                    | Some (tx, x', w') \<Rightarrow>
                        (case clip_negative (level_downsample l) y h of
                           None \<Rightarrow> None
                         | Some (ty, y', h') \<Rightarrow>
                             (let cr = surface\<lparr>pa_tx := double_of_int64 tx,
                                               pa_ty := double_of_int64 ty, pa_x := x',
                                               pa_y := y', pa_w := w', pa_h := h'\<rparr>
                              in if w' > 0 \<and> h' > 0 then
                                   (case paint_region ops cr (surface_memory dest) of
                                      (ok, err, m) \<Rightarrow>
                                        if \<not> ok then Some (False, err, osr, painted dest m)
                                        else (case check_cairo_status ops cr of
                                                Some msg \<Rightarrow>
                                                  Some (False, Some msg, osr, painted dest m)
                                              | None \<Rightarrow> Some (True, None, osr, painted dest m)))
                                 else (case check_cairo_status ops cr of
                                         Some msg \<Rightarrow> Some (False, Some msg, osr, dest)
                                       | None \<Rightarrow> Some (True, None, osr, dest))))))))"

definition openslide_get_level_downsample_gray :: "openslide_t \<Rightarrow> int \<Rightarrow> double option" where
  "openslide_get_level_downsample_gray osr level =
     (if openslide_get_error osr \<noteq> None then Some (double_of_int64 (- 1))
      else if level < 0 \<or> level > osr_level_count_all osr - 1 then Some (double_of_int64 (- 1))
      else map_option level_downsample (level_at osr level))"

text \<open>
  The loops of \<^verbatim>\<open>openslide_read_region_gray\<close> over the working buffer \<^verbatim>\<open>buf\<close>.
  The first component of the result tells whether every tile was painted; after a
  failure the error is on the handle and \<^verbatim>\<open>buf\<close> has been cleared.
\<close>

fun read_region_gray_tiles ::
  "backend \<Rightarrow> cairo_format \<Rightarrow> int \<Rightarrow> int \<Rightarrow> int \<Rightarrow> int \<Rightarrow> int \<Rightarrow> int \<Rightarrow> int \<Rightarrow> double \<Rightarrow>
   (int \<times> int) list \<Rightarrow> openslide_t \<Rightarrow> bytes option \<Rightarrow>
   (bool \<times> openslide_t \<times> bytes option) option" where
  "read_region_gray_tiles ops cr_fmt stride pixel_bytes x y level w h ds [] osr buf =
     Some (True, osr, buf)"
| "read_region_gray_tiles ops cr_fmt stride pixel_bytes x y level w h ds ((row, col) # tiles) osr buf =
     (case tile_coord x (col * 4096) ds of
        None \<Rightarrow> None
      | Some sx \<Rightarrow>
          (case tile_coord y (row * 4096) ds of
             None \<Rightarrow> None
           | Some sy \<Rightarrow>
               (let sw = min (w - col * 4096) 4096;
                    sh = min (h - row * 4096) 4096;
                    area_stride = cairo_format_stride_for_width cr_fmt sw
                in case read_region_area_gray ops osr buf (w * row * 4096 + col * 4096)
                          area_stride pixel_bytes sx sy level sw sh of
                     None \<Rightarrow> None
                   | Some (ok, tmp_err, osr', buf') \<Rightarrow>
                       if \<not> ok then
                         (case memset0_opt buf' (h * stride) of
                            None \<Rightarrow> None
                          | Some cleared \<Rightarrow>
                              Some (False, openslide_propagate_error osr' tmp_err, cleared))
                       else read_region_gray_tiles ops cr_fmt stride pixel_bytes x y level w h
                              ds tiles osr' buf')))"

text \<open>
  \<^verbatim>\<open>openslide_read_region_gray\<close>. When cairo's stride for the width is the tight
  row length, the working buffer \<^verbatim>\<open>buf\<close> is the caller's \<^verbatim>\<open>dest\<close>; otherwise it is
  a new block \<^verbatim>\<open>buf_cr\<close>, whose rows are copied to \<^verbatim>\<open>dest\<close> once every tile has
  been painted, and which is freed on every return. The result is the handle and the
  caller's destination buffer when the call returns.
\<close>

definition read_region_gray_paint ::
  "backend \<Rightarrow> openslide_t \<Rightarrow> bytes option \<Rightarrow> bool \<Rightarrow> bytes option \<Rightarrow> cairo_format \<Rightarrow> int \<Rightarrow>
   int \<Rightarrow> int \<Rightarrow> int \<Rightarrow> int \<Rightarrow> int \<Rightarrow> int \<Rightarrow> (openslide_t \<times> bytes option) option" where
  "read_region_gray_paint ops osr dest is_buf_cr buf cr_fmt stride pixel_bytes x y level w h =
     (case memset0_opt buf (h * stride) of
        None \<Rightarrow> None
      | Some buf0 \<Rightarrow>
          if openslide_get_error osr \<noteq> None
          then Some (osr, if is_buf_cr then dest else buf0)
          else
            (case openslide_get_level_downsample_gray osr level of
               None \<Rightarrow> None
             | Some ds \<Rightarrow>
                 (case read_region_gray_tiles ops cr_fmt stride pixel_bytes x y level w h ds
                         (tile_grid w h) osr buf0 of
                    None \<Rightarrow> None
                  | Some (False, osr', buf') \<Rightarrow> Some (osr', if is_buf_cr then dest else buf')
                  | Some (True, osr', buf') \<Rightarrow>
                      if is_buf_cr then
                        (case dest of
                           None \<Rightarrow> None
                         | Some d \<Rightarrow>
                             map_option (\<lambda>d'. (osr', Some d'))
                               (openslide_del_row_padding (surface_memory buf') (h * stride) d
                                  (w * h * pixel_bytes) pixel_bytes w h))
                      else Some (osr', buf'))))"

definition openslide_read_region_gray ::
  "backend \<Rightarrow> openslide_t \<Rightarrow> bytes option \<Rightarrow> int \<Rightarrow> int \<Rightarrow> int \<Rightarrow> int \<Rightarrow> int \<Rightarrow> int \<Rightarrow>
   (openslide_t \<times> bytes option) option" where
  "openslide_read_region_gray ops osr dest pixel_bytes x y level w h =
     (if w < 0 \<or> h < 0 then
        Some (openslide_propagate_error osr
                (Some ''negative width or negative height not allowed''), dest)
      else if pixel_bytes \<noteq> 1 \<and> pixel_bytes \<noteq> 2 then
        Some (openslide_propagate_error osr
                (Some ''pixel_bytes must either 1 or 2''), dest)
      else
        (let cr_fmt = (if pixel_bytes = 1 then CAIRO_FORMAT_A8 else CAIRO_FORMAT_RGB16_565);
             stride = cairo_format_stride_for_width cr_fmt w;
             len = h * stride
         in if stride = w * pixel_bytes then
              read_region_gray_paint ops osr dest False dest cr_fmt stride pixel_bytes
                x y level w h
            else
              (case g_try_malloc ops len of
                 None \<Rightarrow>
                   Some (openslide_propagate_error osr
                           (Some ''Could not allocate bytes for openslide_read_region_gray()''),
                         dest)
               | Some buf_cr \<Rightarrow>
                   read_region_gray_paint ops osr dest True (Some buf_cr) cr_fmt stride
                     pixel_bytes x y level w h)))"

definition openslide_read_region_gray8 ::
  "backend \<Rightarrow> openslide_t \<Rightarrow> bytes option \<Rightarrow> int \<Rightarrow> int \<Rightarrow> int \<Rightarrow> int \<Rightarrow> int \<Rightarrow>
   (openslide_t \<times> bytes option) option" where
  "openslide_read_region_gray8 ops osr dest x y level w h =
     openslide_read_region_gray ops osr dest 1 x y level w h"

definition openslide_read_region_gray16 ::
  "backend \<Rightarrow> openslide_t \<Rightarrow> bytes option \<Rightarrow> int \<Rightarrow> int \<Rightarrow> int \<Rightarrow> int \<Rightarrow> int \<Rightarrow>
   (openslide_t \<times> bytes option) option" where
  "openslide_read_region_gray16 ops osr dest x y level w h =
     openslide_read_region_gray ops osr dest 2 x y level w h"

text \<open>
  A backend for the examples: its \<^verbatim>\<open>paint_region\<close> gives the verdict and the error
  it is built with and overwrites every byte of the surface with \<open>b\<close>; cairo reports
  no failure and every allocation succeeds, the new block holding the byte 0xAA.
\<close>

definition backend_of :: "bool \<Rightarrow> string option \<Rightarrow> 8 word \<Rightarrow> backend" where
  "backend_of ok err b =
     \<lparr>paint_region = (\<lambda>args m. (ok, err, map (\<lambda>_. b) m)),
      check_cairo_status = (\<lambda>args. None),
      try_malloc_ok = (\<lambda>n. True),
      malloc_fill = (\<lambda>i. 0xAA)\<rparr>"

text \<open>
  The conversions between \<^verbatim>\<open>int64_t\<close> and double in the loops of the region
  readers are defined for every tile of a region of \<open>w\<close> by \<open>h\<close> pixels at \<open>x\<close>, \<open>y\<close>,
  with the downsample \<open>ds\<close>.
\<close>

definition tile_coords_defined :: "int \<Rightarrow> int \<Rightarrow> int \<Rightarrow> int \<Rightarrow> double \<Rightarrow> bool" where
  "tile_coords_defined x y w h ds =
     list_all (\<lambda>(row, col). tile_coord x (col * 4096) ds \<noteq> None \<and>
                             tile_coord y (row * 4096) ds \<noteq> None)
       (tile_grid w h)"

section \<open>JPEG XR codec adapter (openslide-decode-jxr.c)\<close>

text \<open>
  The status codes \<^verbatim>\<open>WMP_err...\<close> come from jxrlib's header, which the file includes
  through JXRGlue.h; they are negative and pairwise distinct. \<^verbatim>\<open>ERR\<close> is a C
  \<^verbatim>\<open>long\<close>.
\<close>

definition WMP_errFail :: int where "WMP_errFail = - 1"
definition WMP_errNotYetImplemented :: int where "WMP_errNotYetImplemented = - 2"
definition WMP_errAbstractMethod :: int where "WMP_errAbstractMethod = - 3"
definition WMP_errOutOfMemory :: int where "WMP_errOutOfMemory = - 101"
definition WMP_errFileIO :: int where "WMP_errFileIO = - 102"
definition WMP_errBufferOverflow :: int where "WMP_errBufferOverflow = - 103"
definition WMP_errInvalidParameter :: int where "WMP_errInvalidParameter = - 104"
definition WMP_errInvalidArgument :: int where "WMP_errInvalidArgument = - 105"
definition WMP_errUnsupportedFormat :: int where "WMP_errUnsupportedFormat = - 106"
definition WMP_errIncorrectCodecVersion :: int where "WMP_errIncorrectCodecVersion = - 107"
definition WMP_errIndexNotFound :: int where "WMP_errIndexNotFound = - 108"
definition WMP_errOutOfSequence :: int where "WMP_errOutOfSequence = - 109"
definition WMP_errNotInitialized :: int where "WMP_errNotInitialized = - 110"
definition WMP_errMustBeMultipleOf16LinesUntilLastCall :: int where
  "WMP_errMustBeMultipleOf16LinesUntilLastCall = - 111"
definition WMP_errPlanarAlphaBandedEncRequiresTempFile :: int where
  "WMP_errPlanarAlphaBandedEncRequiresTempFile = - 112"
definition WMP_errAlphaModeCannotBeTranscoded :: int where
  "WMP_errAlphaModeCannotBeTranscoded = - 113"
definition WMP_errIncorrectCodecSubVersion :: int where "WMP_errIncorrectCodecSubVersion = - 114"

text \<open>The table \<^verbatim>\<open>msgs\<close>, closed by the entry \<^verbatim>\<open>{0, NULL}\<close>.\<close>

definition msgs :: "(int \<times> string option) list" where
  "msgs =
     [(WMP_errFail, Some ''WMP_errFail''),
      (WMP_errNotYetImplemented, Some ''WMP_errNotYetImplemented''),
      (WMP_errAbstractMethod, Some ''WMP_errAbstractMethod''),
      (WMP_errOutOfMemory, Some ''WMP_errOutOfMemory''),
      (WMP_errFileIO, Some ''WMP_errFileIO''),
      (WMP_errBufferOverflow, Some ''WMP_errBufferOverflow''),
      (WMP_errInvalidParameter, Some ''WMP_errInvalidParameter''),
      (WMP_errInvalidArgument, Some ''WMP_errInvalidArgument''),
      (WMP_errUnsupportedFormat, Some ''WMP_errUnsupportedFormat''),
      (WMP_errIncorrectCodecVersion, Some ''WMP_errIncorrectCodecVersion''),
      (WMP_errIndexNotFound, Some ''WMP_errIndexNotFound''),
      (WMP_errOutOfSequence, Some ''WMP_errOutOfSequence''),
      (WMP_errNotInitialized, Some ''WMP_errNotInitialized''),
      (WMP_errMustBeMultipleOf16LinesUntilLastCall,
         Some ''WMP_errMustBeMultipleOf16LinesUntilLastCall''),
      (WMP_errPlanarAlphaBandedEncRequiresTempFile,
         Some ''WMP_errPlanarAlphaBandedEncRequiresTempFile''),
      (WMP_errAlphaModeCannotBeTranscoded, Some ''WMP_errAlphaModeCannotBeTranscoded''),
      (WMP_errIncorrectCodecSubVersion, Some ''WMP_errIncorrectCodecSubVersion''),
      (0, None)]"

text \<open>
  \<^verbatim>\<open>g_set_error\<close> on the content of \<^verbatim>\<open>*err\<close>: glib stores the message when no
  error is there and keeps an earlier one.
\<close>

definition g_set_error :: "string option \<Rightarrow> string \<Rightarrow> string option" where
  "g_set_error err msg = (case err of None \<Rightarrow> Some msg | Some old \<Rightarrow> Some old)"

text \<open>
  The loop of \<^verbatim>\<open>print_err\<close>,
  \<^verbatim>\<open>while ((p++)->msg) { if (p->id == jerr) { g_set_error(...); break; } }\<close>,
  on the part of the table from \<^verbatim>\<open>p\<close> on. The condition reads the \<^verbatim>\<open>msg\<close> of the
  entry \<^verbatim>\<open>p\<close> points to and moves \<^verbatim>\<open>p\<close> to the next entry; the body compares the
  \<^verbatim>\<open>id\<close> of that next entry. Reading behind the table's last entry is \<open>None\<close>.
\<close>

fun print_err_loop :: "(int \<times> string option) list \<Rightarrow> int \<Rightarrow> string option \<Rightarrow> string option option" where
  "print_err_loop [] jerr err = None"
| "print_err_loop ((id0, msg0) # p) jerr err =
     (case msg0 of
        None \<Rightarrow> Some err
      | Some _ \<Rightarrow>
          (case p of
             [] \<Rightarrow> None
           | (id1, msg1) # _ \<Rightarrow>
               if id1 = jerr then
                 Some (g_set_error err
                         (''JXR decode error: '' @ (case msg1 of None \<Rightarrow> ''(null)'' | Some m \<Rightarrow> m)))
               else print_err_loop p jerr err))"

definition print_err :: "int \<Rightarrow> string option \<Rightarrow> string option option" where
  "print_err jerr err = (if jerr \<ge> 0 then Some err else print_err_loop msgs jerr err)"

text \<open>
  The codec behind \<^verbatim>\<open>_openslide_jxr_decode_buf\<close> is jxrlib. Its answers on the given
  stream are the parameters of the model: the status of each call, the size and pixel
  format of the image, the bits per pixel of a format, and what \<^verbatim>\<open>Copy\<close> writes to
  the destination.
\<close>

datatype pk_pixel_format =
    GUID_PKPixelFormat24bppBGR
  | GUID_PKPixelFormat48bppRGB
  | GUID_PKPixelFormat8bppGray
  | GUID_PKPixelFormat16bppGray
  | GUID_other nat

record jxr_codec =
  jxr_create_codec :: int
  jxr_decoder_initialize :: int
  jxr_width :: int
  jxr_height :: int
  jxr_pixel_format :: pk_pixel_format
  jxr_bits_per_pixel :: "pk_pixel_format \<Rightarrow> int"
  jxr_create_converter :: int
  jxr_converter_initialize :: int
  jxr_copy :: "int \<times> bytes"

text \<open>
  The label \<^verbatim>\<open>Cleanup\<close>: \<^verbatim>\<open>print_err\<close>, then the release of the stream, of the
  decoder and of the converter, then the return value. \<^verbatim>\<open>pDecoder->Release\<close> and
  \<^verbatim>\<open>pConverter->Release\<close> are calls through the pointers, which are still
  \<^verbatim>\<open>NULL\<close> when the function gets here before creating the objects.
\<close>

definition jxr_cleanup ::
  "bool \<Rightarrow> bool \<Rightarrow> int \<Rightarrow> string option \<Rightarrow> bytes \<Rightarrow> (bool \<times> string option \<times> bytes) option" where
  "jxr_cleanup have_decoder have_converter jerr err dst =
     (case print_err jerr err of
        None \<Rightarrow> None
      | Some err' \<Rightarrow>
          if \<not> have_decoder then None
          else if \<not> have_converter then None
          else Some (if jerr < 0 then False else True, err', dst))"

text \<open>
  \<^verbatim>\<open>_openslide_jxr_decode_buf\<close>. The result is the return value, \<^verbatim>\<open>*err\<close> and the
  destination; \<open>None\<close> stands for the failed assertion on the destination's length
  and for a call through a \<^verbatim>\<open>NULL\<close> pointer.
\<close>

definition openslide_jxr_decode_buf ::
  "jxr_codec \<Rightarrow> bytes \<Rightarrow> int \<Rightarrow> string option \<Rightarrow> (bool \<times> string option \<times> bytes) option" where
  "openslide_jxr_decode_buf codec dst dst_len err =
     (let jerr = jxr_create_codec codec in
      if jerr < 0 then jxr_cleanup False False jerr err dst
      else
        (let jerr = jxr_decoder_initialize codec in
         if jerr < 0 then jxr_cleanup True False jerr err dst
         else
           (let fmt = jxr_pixel_format codec in
            if fmt \<noteq> GUID_PKPixelFormat24bppBGR \<and> fmt \<noteq> GUID_PKPixelFormat48bppRGB \<and>
               fmt \<noteq> GUID_PKPixelFormat8bppGray \<and> fmt \<noteq> GUID_PKPixelFormat16bppGray
            then jxr_cleanup True False jerr
                   (g_set_error err
                      (''Currently only support GUID_PKPixelFormat24bppBGR, '' @
                       ''GUID_PKPixelFormat48bppRGB, GUID_PKPixelFormat8bppGray and '' @
                       ''GUID_PKPixelFormat16bppGray'')) dst
            else
              (let fmt_out = fmt;
                   stride = (jxr_width codec *
                             ((max (jxr_bits_per_pixel codec fmt) (jxr_bits_per_pixel codec fmt_out) + 7)
                                div 8)) mod 2 ^ 32;
                   unjxr_len = (jxr_height codec * stride) mod 2 ^ 32
               in if \<not> unjxr_len \<le> dst_len then None
                  else
                    (let jerr = jxr_create_converter codec in
                     if jerr < 0 then jxr_cleanup True False jerr err dst
                     else
                       (let jerr = jxr_converter_initialize codec in
                        if jerr < 0 then jxr_cleanup True True jerr err dst
                        else
                          (let (jerr, dst') = jxr_copy codec in
                           jxr_cleanup True True jerr err dst')))))))"

text \<open>A codec for the examples: every call succeeds but \<^verbatim>\<open>Copy\<close>, which returns \<open>status\<close>.\<close>

definition codec_copy_status :: "int \<Rightarrow> jxr_codec" where
  "codec_copy_status status =
     \<lparr>jxr_create_codec = 0, jxr_decoder_initialize = 0, jxr_width = 1, jxr_height = 1,
      jxr_pixel_format = GUID_PKPixelFormat8bppGray, jxr_bits_per_pixel = (\<lambda>fmt. 8),
      jxr_create_converter = 0, jxr_converter_initialize = 0,
      jxr_copy = (status, [0])\<rparr>"

section \<open>Pixel kernels (openslide-image.c, openslide-image-ssse3.c, openslide-image-avx2.c)\<close>

text \<open>
  A kernel reads the buffer behind \<^verbatim>\<open>src\<close> and writes the buffer behind \<^verbatim>\<open>dst\<close>.
  Both are lists of bytes, pointers are offsets into them, and an access outside a
  buffer makes the result \<open>None\<close>. \<^verbatim>\<open>src_len\<close> is a \<^verbatim>\<open>size_t\<close>, a 64-bit word, so
  that the subtraction in \<^verbatim>\<open>src_len / mm_step - 1\<close> wraps as it does in C. The
  counters of the loops are natural numbers: they stay below a 64-bit bound. A 32-bit
  pixel is stored with the low byte first, as on x86 and on little-endian ARM.
\<close>

definition load_bytes :: "bytes \<Rightarrow> nat \<Rightarrow> nat \<Rightarrow> bytes option" where
  "load_bytes m off n = (if off + n \<le> length m then Some (take n (drop off m)) else None)"

definition store_bytes :: "bytes \<Rightarrow> nat \<Rightarrow> bytes \<Rightarrow> bytes option" where
  "store_bytes m off v =
     (if off + length v \<le> length m then Some (take off m @ v @ drop (off + length v) m)
      else None)"

definition u32_le :: "32 word \<Rightarrow> bytes" where
  "u32_le v = [ucast v, ucast (drop_bit 8 v), ucast (drop_bit 16 v), ucast (drop_bit 24 v)]"

text \<open>The macro \<^verbatim>\<open>BGR24TOARGB32(p)\<close> on the three bytes at \<^verbatim>\<open>p\<close>.\<close>

definition BGR24TOARGB32 :: "bytes \<Rightarrow> 32 word" where
  "BGR24TOARGB32 p =
     (0xFF000000 OR ucast (p ! 0) OR push_bit 8 (ucast (p ! 1)) OR push_bit 16 (ucast (p ! 2)))"

subsection \<open>The scalar kernels\<close>

text \<open>
  The loop \<^verbatim>\<open>for (i = ...; i < src_len; i += 3, src += 3) { *dst++ = BGR24TOARGB32(src); }\<close>
  that is the whole of \<^verbatim>\<open>bgr24_to_argb32_generic\<close> and the tail of its vectorized
  variants: \<open>i\<close> is the counter, \<open>s\<close> the offset of \<^verbatim>\<open>src\<close> and \<open>d\<close> the offset
  of \<^verbatim>\<open>dst\<close>, in pixels.
\<close>

function bgr24_scalar_loop :: "bytes \<Rightarrow> nat \<Rightarrow> nat \<Rightarrow> nat \<Rightarrow> nat \<Rightarrow> bytes \<Rightarrow> bytes option" where
  "bgr24_scalar_loop src src_len i s d dst =
     (if i < src_len then
        (case load_bytes src s 3 of
           None \<Rightarrow> None
         | Some p \<Rightarrow>
             (case store_bytes dst (4 * d) (u32_le (BGR24TOARGB32 p)) of
                None \<Rightarrow> None
              | Some dst' \<Rightarrow> bgr24_scalar_loop src src_len (i + 3) (s + 3) (d + 1) dst'))
      else Some dst)"
  by pat_completeness auto
termination
  by (relation "measure (\<lambda>(src, src_len, i, s, d, dst). src_len - i)") auto

declare bgr24_scalar_loop.simps [simp del]

definition bgr24_to_argb32_generic :: "bytes \<Rightarrow> 64 word \<Rightarrow> bytes \<Rightarrow> bytes option" where
  "bgr24_to_argb32_generic src src_len dst = bgr24_scalar_loop src (unat src_len) 0 0 0 dst"

text \<open>
  \<^verbatim>\<open>gray16togray8\<close> on the two bytes at offset \<open>s\<close>: the 16-bit sample, low byte
  first, shifted right by \<^verbatim>\<open>ns\<close> and saturated (\<open>gray16_scalar_sample\<close> is that
  value, given the two bytes). A shift by a negative count or by 32 or more is undefined
  in C.
\<close>

definition u16_of :: "8 word \<Rightarrow> 8 word \<Rightarrow> 16 word" where
  "u16_of lo hi = ucast lo OR push_bit 8 (ucast hi)"

definition gray16_scalar_sample :: "8 word \<Rightarrow> 8 word \<Rightarrow> int \<Rightarrow> 8 word" where
  "gray16_scalar_sample lo hi ns =
     (let v = drop_bit (nat ns) (u16_of lo hi)
      in if v > 255 then 255 else ucast v)"

definition gray16togray8 :: "bytes \<Rightarrow> nat \<Rightarrow> int \<Rightarrow> 8 word option" where
  "gray16togray8 src s ns =
     (case load_bytes src s 2 of
        None \<Rightarrow> None
      | Some p \<Rightarrow>
          if ns < 0 \<or> 32 \<le> ns then None
          else Some (gray16_scalar_sample (p ! 0) (p ! 1) ns))"

text \<open>
  The loop \<^verbatim>\<open>while (i < src_len) { *dst++ = gray16togray8(src, nshift); i += 2; src += 2; }\<close>
  of \<^verbatim>\<open>gray16_to_gray8_generic\<close> and of the tails of its variants.
\<close>

function gray16_scalar_loop :: "bytes \<Rightarrow> nat \<Rightarrow> int \<Rightarrow> nat \<Rightarrow> nat \<Rightarrow> nat \<Rightarrow> bytes \<Rightarrow> bytes option" where
  "gray16_scalar_loop src src_len nshift i s d dst =
     (if i < src_len then
        (case gray16togray8 src s nshift of
           None \<Rightarrow> None
         | Some g \<Rightarrow>
             (case store_bytes dst d [g] of
                None \<Rightarrow> None
              | Some dst' \<Rightarrow> gray16_scalar_loop src src_len nshift (i + 2) (s + 2) (d + 1) dst'))
      else Some dst)"
  by pat_completeness auto
termination
  by (relation "measure (\<lambda>(src, src_len, nshift, i, s, d, dst). src_len - i)") auto

declare gray16_scalar_loop.simps [simp del]

definition gray16_to_gray8_generic :: "bytes \<Rightarrow> 64 word \<Rightarrow> int \<Rightarrow> bytes \<Rightarrow> bytes option" where
  "gray16_to_gray8_generic src src_len pixel_real_bits dst =
     gray16_scalar_loop src (unat src_len) (pixel_real_bits - 8) 0 0 0 dst"

text \<open>
  The loop \<^verbatim>\<open>for (i = 0; i < n; i++) { *p++ = *slo++; *p++ = *shi++; }\<close> of
  \<^verbatim>\<open>restore_czi_zstd1_generic\<close> and of the tails of its variants, by the number of
  iterations left.
\<close>

fun restore_scalar_loop :: "nat \<Rightarrow> bytes \<Rightarrow> nat \<Rightarrow> nat \<Rightarrow> nat \<Rightarrow> bytes \<Rightarrow> bytes option" where
  "restore_scalar_loop 0 src slo shi p dst = Some dst"
| "restore_scalar_loop (Suc n) src slo shi p dst =
     (case load_bytes src slo 1 of
        None \<Rightarrow> None
      | Some lo \<Rightarrow>
          (case store_bytes dst p lo of
             None \<Rightarrow> None
           | Some dst1 \<Rightarrow>
               (case load_bytes src shi 1 of
                  None \<Rightarrow> None
                | Some hi \<Rightarrow>
                    (case store_bytes dst1 (p + 1) hi of
                       None \<Rightarrow> None
                     | Some dst2 \<Rightarrow>
                         restore_scalar_loop n src (slo + 1) (shi + 1) (p + 2) dst2))))"

definition restore_czi_zstd1_generic :: "bytes \<Rightarrow> 64 word \<Rightarrow> bytes \<Rightarrow> bytes option" where
  "restore_czi_zstd1_generic src src_len dst =
     (let half_len = src_len div 2
      in restore_scalar_loop (unat half_len) src 0 (unat half_len) 0 dst)"

text \<open>
  The packing that the restore undoes, in the specification's words: the low bytes of
  all the samples of an interleaved little-endian 16-bit stream, followed by all the
  high bytes. The packing is done by the writer of the file, not by this code; this
  definition follows the specification.
\<close>

definition split_planes :: "bytes \<Rightarrow> bytes" where
  "split_planes xs =
     map (\<lambda>i. xs ! (2 * i)) [0 ..< length xs div 2] @
     map (\<lambda>i. xs ! (2 * i + 1)) [0 ..< length xs div 2]"

subsection \<open>Vector instructions\<close>

text \<open>
  A 128-bit register is a list of 16 bytes, a 256-bit register a list of 32, byte 0
  first. The intrinsics below follow Intel's description of each instruction.
  The alignment that \<^verbatim>\<open>_mm_load_si128\<close> demands is not modelled.
\<close>

definition mm_loadu_si128 :: "bytes \<Rightarrow> nat \<Rightarrow> bytes option" where
  "mm_loadu_si128 m off = load_bytes m off 16"

definition mm256_loadu_si256 :: "bytes \<Rightarrow> nat \<Rightarrow> bytes option" where
  "mm256_loadu_si256 m off = load_bytes m off 32"

definition mm_storeu :: "bytes \<Rightarrow> nat \<Rightarrow> bytes \<Rightarrow> bytes option" where
  "mm_storeu m off v = store_bytes m off v"

text \<open>
  \<^verbatim>\<open>_mm_shuffle_epi8(a, b)\<close>: byte \<open>i\<close> of the result is 0 when bit 7 of \<open>b[i]\<close> is
  set, and the byte of \<open>a\<close> selected by the low four bits of \<open>b[i]\<close> otherwise.
\<close>

definition mm_shuffle_epi8 :: "bytes \<Rightarrow> bytes \<Rightarrow> bytes" where
  "mm_shuffle_epi8 a b = map (\<lambda>c. if bit c 7 then 0 else a ! unat (c AND 0x0F)) b"

definition mm_or :: "bytes \<Rightarrow> bytes \<Rightarrow> bytes" where
  "mm_or a b = map (\<lambda>(x, y). x OR y) (zip a b)"

text \<open>\<^verbatim>\<open>_mm_cmpgt_epi8\<close>: the bytes compared as signed numbers.\<close>

definition mm_cmpgt_epi8 :: "bytes \<Rightarrow> bytes \<Rightarrow> bytes" where
  "mm_cmpgt_epi8 a b = map (\<lambda>(x, y). if sint x > sint y then 0xFF else 0) (zip a b)"

definition mm_unpacklo_epi8 :: "bytes \<Rightarrow> bytes \<Rightarrow> bytes" where
  "mm_unpacklo_epi8 a b = concat (map (\<lambda>i. [a ! i, b ! i]) [0 ..< 8])"

definition mm_unpackhi_epi8 :: "bytes \<Rightarrow> bytes \<Rightarrow> bytes" where
  "mm_unpackhi_epi8 a b = concat (map (\<lambda>i. [a ! i, b ! i]) [8 ..< 16])"

text \<open>
  \<^verbatim>\<open>_mm_srli_epi16\<close> and \<^verbatim>\<open>_mm256_srli_epi16\<close>: each 16-bit lane shifted right
  by \<open>count\<close>, zeros shifted in; a count above 15 clears the lanes (a negative
  \<^verbatim>\<open>int\<close> reaches the instruction as a count above 15). \<open>srl16\<close> is one lane,
  given by its low and its high byte.
\<close>

definition srl16 :: "8 word \<Rightarrow> 8 word \<Rightarrow> int \<Rightarrow> 16 word" where
  "srl16 lo hi count =
     (if count < 0 \<or> 15 < count then 0 else drop_bit (nat count) (u16_of lo hi))"

fun srli_epi16 :: "bytes \<Rightarrow> int \<Rightarrow> bytes" where
  "srli_epi16 (lo # hi # rest) count =
     (let v = srl16 lo hi count
      in ucast v # ucast (drop_bit 8 v) # srli_epi16 rest count)"
| "srli_epi16 rest count = []"

text \<open>The 256-bit instructions that work on the two 128-bit halves separately.\<close>

definition mm256_setr_m128i :: "bytes \<Rightarrow> bytes \<Rightarrow> bytes" where
  "mm256_setr_m128i lo hi = lo @ hi"

definition mm256_shuffle_epi8 :: "bytes \<Rightarrow> bytes \<Rightarrow> bytes" where
  "mm256_shuffle_epi8 a b =
     mm_shuffle_epi8 (take 16 a) (take 16 b) @ mm_shuffle_epi8 (drop 16 a) (drop 16 b)"

definition mm256_unpacklo_epi8 :: "bytes \<Rightarrow> bytes \<Rightarrow> bytes" where
  "mm256_unpacklo_epi8 a b =
     mm_unpacklo_epi8 (take 16 a) (take 16 b) @ mm_unpacklo_epi8 (drop 16 a) (drop 16 b)"

definition mm256_unpackhi_epi8 :: "bytes \<Rightarrow> bytes \<Rightarrow> bytes" where
  "mm256_unpackhi_epi8 a b =
     mm_unpackhi_epi8 (take 16 a) (take 16 b) @ mm_unpackhi_epi8 (drop 16 a) (drop 16 b)"

text \<open>
  \<^verbatim>\<open>_mm256_permute2x128_si256(a, b, imm)\<close>: each half of the result is chosen by
  four bits of \<open>imm\<close>, bit 3 clearing it and the low two bits selecting a half of
  \<open>a\<close> or of \<open>b\<close>.
\<close>

definition select_half :: "bytes \<Rightarrow> bytes \<Rightarrow> 8 word \<Rightarrow> bytes" where
  "select_half a b c =
     (if bit c 3 then replicate 16 0
      else if c AND 3 = 0 then take 16 a
      else if c AND 3 = 1 then drop 16 a
      else if c AND 3 = 2 then take 16 b
      else drop 16 b)"

definition mm256_permute2x128_si256 :: "bytes \<Rightarrow> bytes \<Rightarrow> 8 word \<Rightarrow> bytes" where
  "mm256_permute2x128_si256 a b imm = select_half a b (imm AND 0x0F) @ select_half a b (drop_bit 4 imm)"

text \<open>
  \<^verbatim>\<open>_mm256_permute4x64_epi64(a, imm)\<close>: the 64-bit part \<open>i\<close> of the result is the
  part of \<open>a\<close> whose number is in bits \<open>2i\<close> and \<open>2i + 1\<close> of \<open>imm\<close>.
\<close>

definition qword :: "bytes \<Rightarrow> nat \<Rightarrow> bytes" where
  "qword a k = take 8 (drop (8 * k) a)"

definition mm256_permute4x64_epi64 :: "bytes \<Rightarrow> 8 word \<Rightarrow> bytes" where
  "mm256_permute4x64_epi64 a imm =
     concat (map (\<lambda>i. qword a (unat (drop_bit (2 * i) imm AND 3))) [0 ..< 4])"

text \<open>
  NEON: \<^verbatim>\<open>vqtbl1q_u8(t, idx)\<close> looks up each index in the table, an index of 16 or
  more giving 0; \<^verbatim>\<open>vzip1q_u8\<close> and \<^verbatim>\<open>vzip2q_u8\<close> interleave the low and the high
  halves of two registers.
\<close>

definition vqtbl1q_u8 :: "bytes \<Rightarrow> bytes \<Rightarrow> bytes" where
  "vqtbl1q_u8 t idx = map (\<lambda>c. if unat c < 16 then t ! unat c else 0) idx"

definition vzip1q_u8 :: "bytes \<Rightarrow> bytes \<Rightarrow> bytes" where
  "vzip1q_u8 a b = concat (map (\<lambda>i. [a ! i, b ! i]) [0 ..< 8])"

definition vzip2q_u8 :: "bytes \<Rightarrow> bytes \<Rightarrow> bytes" where
  "vzip2q_u8 a b = concat (map (\<lambda>i. [a ! i, b ! i]) [8 ..< 16])"

subsection \<open>The vectorized kernels\<close>

text \<open>
  Each vector loop \<^verbatim>\<open>for (size_t n = 0; n < mm_len; n++)\<close> is a recursion on the
  number of iterations left, \<open>s\<close> and \<open>d\<close> being the offsets of \<^verbatim>\<open>src\<close> and
  \<^verbatim>\<open>dst\<close>. After it the scalar loop runs from the counter \<^verbatim>\<open>mm_len * mm_step\<close>, a
  product of \<^verbatim>\<open>size_t\<close> values, with the pointers where the vector loop left them.
\<close>

definition shuffle_bgr24 :: bytes where
  "shuffle_bgr24 = [0, 1, 2, 0xFF, 3, 4, 5, 0xFF, 6, 7, 8, 0xFF, 9, 10, 11, 0xFF]"

definition opaque :: bytes where
  "opaque = [0, 0, 0, 0xFF, 0, 0, 0, 0xFF, 0, 0, 0, 0xFF, 0, 0, 0, 0xFF]"

fun bgr24_ssse3_loop :: "nat \<Rightarrow> bytes \<Rightarrow> nat \<Rightarrow> nat \<Rightarrow> bytes \<Rightarrow> bytes option" where
  "bgr24_ssse3_loop 0 src s d dst = Some dst"
| "bgr24_ssse3_loop (Suc n) src s d dst =
     (case mm_loadu_si128 src s of
        None \<Rightarrow> None
      | Some bgr \<Rightarrow>
          (let argb = mm_shuffle_epi8 bgr shuffle_bgr24;
               out = mm_or argb opaque
           in case mm_storeu dst (4 * d) out of
                None \<Rightarrow> None
              | Some dst' \<Rightarrow> bgr24_ssse3_loop n src (s + 12) (d + 4) dst'))"

definition openslide_bgr24_to_argb32_ssse3 :: "bytes \<Rightarrow> 64 word \<Rightarrow> bytes \<Rightarrow> bytes option" where
  "openslide_bgr24_to_argb32_ssse3 src src_len dst =
     (let mm_len = src_len div 12 - 1
      in case bgr24_ssse3_loop (unat mm_len) src 0 0 dst of
           None \<Rightarrow> None
         | Some dst' \<Rightarrow>
             bgr24_scalar_loop src (unat src_len) (unat (mm_len * 12))
               (unat mm_len * 12) (unat mm_len * 4) dst')"

fun bgr24_avx2_loop :: "nat \<Rightarrow> bytes \<Rightarrow> nat \<Rightarrow> nat \<Rightarrow> bytes \<Rightarrow> bytes option" where
  "bgr24_avx2_loop 0 src s d dst = Some dst"
| "bgr24_avx2_loop (Suc n) src s d dst =
     (case mm_loadu_si128 src s of
        None \<Rightarrow> None
      | Some lo \<Rightarrow>
          (case mm_loadu_si128 src (s + 12) of
             None \<Rightarrow> None
           | Some hi \<Rightarrow>
               (let bgr = mm256_setr_m128i lo hi;
                    argb = mm256_shuffle_epi8 bgr (shuffle_bgr24 @ shuffle_bgr24);
                    out = mm_or argb (opaque @ opaque)
                in case mm_storeu dst (4 * d) out of
                     None \<Rightarrow> None
                   | Some dst' \<Rightarrow> bgr24_avx2_loop n src (s + 24) (d + 8) dst')))"

definition openslide_bgr24_to_argb32_avx2 :: "bytes \<Rightarrow> 64 word \<Rightarrow> bytes \<Rightarrow> bytes option" where
  "openslide_bgr24_to_argb32_avx2 src src_len dst =
     (let mm_len = src_len div 24 - 1
      in case bgr24_avx2_loop (unat mm_len) src 0 0 dst of
           None \<Rightarrow> None
         | Some dst' \<Rightarrow>
             bgr24_scalar_loop src (unat src_len) (unat (mm_len * 24))
               (unat mm_len * 24) (unat mm_len * 8) dst')"

fun bgr24_neon_loop :: "nat \<Rightarrow> bytes \<Rightarrow> nat \<Rightarrow> nat \<Rightarrow> bytes \<Rightarrow> bytes option" where
  "bgr24_neon_loop 0 src s d dst = Some dst"
| "bgr24_neon_loop (Suc n) src s d dst =
     (case mm_loadu_si128 src s of
        None \<Rightarrow> None
      | Some bgr \<Rightarrow>
          (let argb = vqtbl1q_u8 bgr shuffle_bgr24;
               out = mm_or argb opaque
           in case mm_storeu dst (4 * d) out of
                None \<Rightarrow> None
              | Some dst' \<Rightarrow> bgr24_neon_loop n src (s + 12) (d + 4) dst'))"

definition bgr24_to_argb32_neon :: "bytes \<Rightarrow> 64 word \<Rightarrow> bytes \<Rightarrow> bytes option" where
  "bgr24_to_argb32_neon src src_len dst =
     (let mm_len = src_len div 12 - 1
      in case bgr24_neon_loop (unat mm_len) src 0 0 dst of
           None \<Rightarrow> None
         | Some dst' \<Rightarrow>
             bgr24_scalar_loop src (unat src_len) (unat (mm_len * 12))
               (unat mm_len * 12) (unat mm_len * 4) dst')"

text \<open>Gray16 to Gray8: eight samples a step with SSE2, sixteen with AVX2.\<close>

definition hi8 :: bytes where
  "hi8 = [1, 3, 5, 7, 9, 11, 13, 15, 0xFF, 0xFF, 0xFF, 0xFF, 0xFF, 0xFF, 0xFF, 0xFF]"

definition lo8 :: bytes where
  "lo8 = [0, 2, 4, 6, 8, 10, 12, 14, 0xFF, 0xFF, 0xFF, 0xFF, 0xFF, 0xFF, 0xFF, 0xFF]"

definition gray16_sse2_step :: "bytes \<Rightarrow> int \<Rightarrow> bytes" where
  "gray16_sse2_step gray16 nshift =
     (let tmp2 = srli_epi16 gray16 nshift;
          gray8 = mm_shuffle_epi8 tmp2 lo8;
          tmp1 = mm_shuffle_epi8 tmp2 hi8;
          tmp2 = mm_cmpgt_epi8 tmp1 (replicate 16 0);
          tmp1 = mm_or tmp2 gray8
      in tmp1)"

fun gray16_sse2_loop :: "nat \<Rightarrow> bytes \<Rightarrow> int \<Rightarrow> nat \<Rightarrow> nat \<Rightarrow> bytes \<Rightarrow> bytes option" where
  "gray16_sse2_loop 0 src nshift s d dst = Some dst"
| "gray16_sse2_loop (Suc n) src nshift s d dst =
     (case mm_loadu_si128 src s of
        None \<Rightarrow> None
      | Some gray16 \<Rightarrow>
          (case mm_storeu dst d (gray16_sse2_step gray16 nshift) of
             None \<Rightarrow> None
           | Some dst' \<Rightarrow> gray16_sse2_loop n src nshift (s + 16) (d + 8) dst'))"

definition openslide_gray16_to_gray8_sse2 :: "bytes \<Rightarrow> 64 word \<Rightarrow> int \<Rightarrow> bytes \<Rightarrow> bytes option" where
  "openslide_gray16_to_gray8_sse2 src src_len pixel_real_bits dst =
     (let nshift = pixel_real_bits - 8;
          mm_len = src_len div 16 - 1
      in case gray16_sse2_loop (unat mm_len) src nshift 0 0 dst of
           None \<Rightarrow> None
         | Some dst' \<Rightarrow>
             gray16_scalar_loop src (unat src_len) nshift (unat (mm_len * 16))
               (unat mm_len * 16) (unat mm_len * 8) dst')"

definition gray16_avx2_step :: "bytes \<Rightarrow> int \<Rightarrow> bytes" where
  "gray16_avx2_step gray16 nshift =
     (let tmp2 = srli_epi16 gray16 nshift;
          gray8 = mm256_shuffle_epi8 tmp2 (lo8 @ lo8);
          tmp1 = mm256_shuffle_epi8 tmp2 (hi8 @ hi8);
          tmp2 = mm_cmpgt_epi8 tmp1 (replicate 32 0);
          tmp1 = mm_or tmp2 gray8;
          tmp2 = mm256_permute4x64_epi64 tmp1 0x08
      in tmp2)"

fun gray16_avx2_loop :: "nat \<Rightarrow> bytes \<Rightarrow> int \<Rightarrow> nat \<Rightarrow> nat \<Rightarrow> bytes \<Rightarrow> bytes option" where
  "gray16_avx2_loop 0 src nshift s d dst = Some dst"
| "gray16_avx2_loop (Suc n) src nshift s d dst =
     (case mm256_loadu_si256 src s of
        None \<Rightarrow> None
      | Some gray16 \<Rightarrow>
          (case mm_storeu dst d (gray16_avx2_step gray16 nshift) of
             None \<Rightarrow> None
           | Some dst' \<Rightarrow> gray16_avx2_loop n src nshift (s + 32) (d + 16) dst'))"

definition openslide_gray16_to_gray8_avx2 :: "bytes \<Rightarrow> 64 word \<Rightarrow> int \<Rightarrow> bytes \<Rightarrow> bytes option" where
  "openslide_gray16_to_gray8_avx2 src src_len pixel_real_bits dst =
     (let nshift = pixel_real_bits - 8;
          mm_len = src_len div 32 - 1
      in case gray16_avx2_loop (unat mm_len) src nshift 0 0 dst of
           None \<Rightarrow> None
         | Some dst' \<Rightarrow>
             gray16_scalar_loop src (unat src_len) nshift (unat (mm_len * 32))
               (unat mm_len * 32) (unat mm_len * 16) dst')"

text \<open>
  The byte-plane restore: \<^verbatim>\<open>len_mm = half_len / mm_step\<close> vector steps, then
  \<^verbatim>\<open>len_remain = half_len % mm_step\<close> scalar ones. There is no subtraction here.
\<close>

fun restore_sse3_loop :: "nat \<Rightarrow> bytes \<Rightarrow> nat \<Rightarrow> nat \<Rightarrow> nat \<Rightarrow> bytes \<Rightarrow> bytes option" where
  "restore_sse3_loop 0 src slo shi p dst = Some dst"
| "restore_sse3_loop (Suc n) src slo shi p dst =
     (case mm_loadu_si128 src slo of
        None \<Rightarrow> None
      | Some vlo \<Rightarrow>
          (case mm_loadu_si128 src shi of
             None \<Rightarrow> None
           | Some vhi \<Rightarrow>
               (case mm_storeu dst p (mm_unpacklo_epi8 vlo vhi) of
                  None \<Rightarrow> None
                | Some dst1 \<Rightarrow>
                    (case mm_storeu dst1 (p + 16) (mm_unpackhi_epi8 vlo vhi) of
                       None \<Rightarrow> None
                     | Some dst2 \<Rightarrow>
                         restore_sse3_loop n src (slo + 16) (shi + 16) (p + 32) dst2))))"

definition openslide_restore_czi_zstd1_sse3 :: "bytes \<Rightarrow> 64 word \<Rightarrow> bytes \<Rightarrow> bytes option" where
  "openslide_restore_czi_zstd1_sse3 src src_len dst =
     (let half_len = src_len div 2;
          len_mm = half_len div 16;
          len_remain = half_len mod 16
      in case restore_sse3_loop (unat len_mm) src 0 (unat half_len) 0 dst of
           None \<Rightarrow> None
         | Some dst' \<Rightarrow>
             restore_scalar_loop (unat len_remain) src (unat len_mm * 16)
               (unat half_len + unat len_mm * 16) (unat len_mm * 32) dst')"

fun restore_avx2_loop :: "nat \<Rightarrow> bytes \<Rightarrow> nat \<Rightarrow> nat \<Rightarrow> nat \<Rightarrow> bytes \<Rightarrow> bytes option" where
  "restore_avx2_loop 0 src slo shi p dst = Some dst"
| "restore_avx2_loop (Suc n) src slo shi p dst =
     (case mm256_loadu_si256 src slo of
        None \<Rightarrow> None
      | Some vlo \<Rightarrow>
          (case mm256_loadu_si256 src shi of
             None \<Rightarrow> None
           | Some vhi \<Rightarrow>
               (let tmp1 = mm256_unpacklo_epi8 vlo vhi;
                    tmp2 = mm256_unpackhi_epi8 vlo vhi
                in case mm_storeu dst p (mm256_permute2x128_si256 tmp1 tmp2 0x20) of
                     None \<Rightarrow> None
                   | Some dst1 \<Rightarrow>
                       (case mm_storeu dst1 (p + 32) (mm256_permute2x128_si256 tmp1 tmp2 0x31) of
                          None \<Rightarrow> None
                        | Some dst2 \<Rightarrow>
                            restore_avx2_loop n src (slo + 32) (shi + 32) (p + 64) dst2))))"

definition openslide_restore_czi_zstd1_avx2 :: "bytes \<Rightarrow> 64 word \<Rightarrow> bytes \<Rightarrow> bytes option" where
  "openslide_restore_czi_zstd1_avx2 src src_len dst =
     (let half_len = src_len div 2;
          len_mm = half_len div 32;
          len_remain = half_len mod 32
      in case restore_avx2_loop (unat len_mm) src 0 (unat half_len) 0 dst of
           None \<Rightarrow> None
         | Some dst' \<Rightarrow>
             restore_scalar_loop (unat len_remain) src (unat len_mm * 32)
               (unat half_len + unat len_mm * 32) (unat len_mm * 64) dst')"

fun restore_neon_loop :: "nat \<Rightarrow> bytes \<Rightarrow> nat \<Rightarrow> nat \<Rightarrow> nat \<Rightarrow> bytes \<Rightarrow> bytes option" where
  "restore_neon_loop 0 src slo shi p dst = Some dst"
| "restore_neon_loop (Suc n) src slo shi p dst =
     (case mm_loadu_si128 src slo of
        None \<Rightarrow> None
      | Some vlo \<Rightarrow>
          (case mm_loadu_si128 src shi of
             None \<Rightarrow> None
           | Some vhi \<Rightarrow>
               (case mm_storeu dst p (vzip1q_u8 vlo vhi) of
                  None \<Rightarrow> None
                | Some dst1 \<Rightarrow>
                    (case mm_storeu dst1 (p + 16) (vzip2q_u8 vlo vhi) of
                       None \<Rightarrow> None
                     | Some dst2 \<Rightarrow>
                         restore_neon_loop n src (slo + 16) (shi + 16) (p + 32) dst2))))"

definition restore_czi_zstd1_neon :: "bytes \<Rightarrow> 64 word \<Rightarrow> bytes \<Rightarrow> bytes option" where
  "restore_czi_zstd1_neon src src_len dst =
     (let half_len = src_len div 2;
          len_mm = half_len div 16;
          len_remain = half_len mod 16
      in case restore_neon_loop (unat len_mm) src 0 (unat half_len) 0 dst of
           None \<Rightarrow> None
         | Some dst' \<Rightarrow>
             restore_scalar_loop (unat len_remain) src (unat len_mm * 16)
               (unat half_len + unat len_mm * 16) (unat len_mm * 32) dst')"

text \<open>
  What a vector step of the gray reduction computes for one sample, given by its low
  and its high byte: the shift, the low and the high byte of the shifted lane, the
  signed comparison of the high byte with 0 (\<open>sign_mask\<close>), and the OR of the mask
  with the low byte.
\<close>

definition sign_mask :: "8 word \<Rightarrow> 8 word" where
  "sign_mask h = (if sint h > sint (0 :: 8 word) then 0xFF else 0)"

definition gray16_vector_sample :: "8 word \<Rightarrow> 8 word \<Rightarrow> int \<Rightarrow> 8 word" where
  "gray16_vector_sample lo hi nshift =
     (let v = srl16 lo hi nshift;
          gray8 = (ucast v :: 8 word);
          high = (ucast (drop_bit 8 v) :: 8 word)
      in sign_mask high OR gray8)"

section \<open>Properties of the binary64 model\<close>

subsection \<open>The comparisons\<close>

text \<open>
  On finite numbers the comparisons are those of the real numbers they stand for, so
  that without NaN they form a total preorder.
\<close>

lemma pow2_ratio: "(2::real) ^ nat e / 2 ^ nat (- e) = 2 powr (real_of_int e)"
proof (cases "0 \<le> e")
  case True
  then show ?thesis by (simp add: powr_realpow [symmetric])
next
  case False
  then have "(2::real) ^ nat (- e) = 2 powr (real_of_int (- e))"
    by (simp add: powr_realpow [symmetric])
  with False show ?thesis by (simp add: powr_minus field_simps)
qed

lemma aligned_real:
  assumes "c \<le> e"
  shows "real_of_int (aligned s m e c) = dval (DFinite s m e) * 2 powr (- real_of_int c)"
proof -
  have "(2::real) ^ nat (e - c) = 2 powr (real_of_int (e - c))"
    using assms by (simp add: powr_realpow [symmetric])
  also have "\<dots> = 2 powr (real_of_int e) * 2 powr (- real_of_int c)"
    by (simp add: powr_add [symmetric])
  finally have "(2::real) ^ nat (e - c) = (2 ^ nat e / 2 ^ nat (- e)) * 2 powr (- real_of_int c)"
    by (simp add: pow2_ratio)
  then show ?thesis by (simp add: aligned_def)
qed

lemma dlt_finite:
  "dlt (DFinite s a ea) (DFinite t b eb) = (dval (DFinite s a ea) < dval (DFinite t b eb))"
proof -
  define c where "c = min ea eb"
  have p: "0 < (2::real) powr (- real_of_int c)" by simp
  have "dlt (DFinite s a ea) (DFinite t b eb) =
      (real_of_int (aligned s a ea c) < real_of_int (aligned t b eb c))"
    by (simp add: c_def Let_def)
  also have "\<dots> = (dval (DFinite s a ea) * 2 powr (- real_of_int c)
                  < dval (DFinite t b eb) * 2 powr (- real_of_int c))"
    using aligned_real [of c ea s a] aligned_real [of c eb t b] by (simp add: c_def)
  also have "\<dots> = (dval (DFinite s a ea) < dval (DFinite t b eb))"
    using p by (simp only: mult_less_cancel_right_pos)
  finally show ?thesis .
qed

lemma deq_finite:
  "deq (DFinite s a ea) (DFinite t b eb) = (dval (DFinite s a ea) = dval (DFinite t b eb))"
proof -
  define c where "c = min ea eb"
  have p: "(2::real) powr (- real_of_int c) \<noteq> 0" by simp
  have "deq (DFinite s a ea) (DFinite t b eb) =
      (real_of_int (aligned s a ea c) = real_of_int (aligned t b eb c))"
    by (simp add: c_def Let_def)
  also have "\<dots> = (dval (DFinite s a ea) * 2 powr (- real_of_int c)
                  = dval (DFinite t b eb) * 2 powr (- real_of_int c))"
    using aligned_real [of c ea s a] aligned_real [of c eb t b] by (simp add: c_def)
  also have "\<dots> = (dval (DFinite s a ea) = dval (DFinite t b eb))"
    using p by (simp only: mult_cancel_right) simp
  finally show ?thesis .
qed

lemma dle_not_nan: "dle x y \<Longrightarrow> x \<noteq> DNaN \<and> y \<noteq> DNaN"
  by (cases x; cases y) (simp_all add: dle_def)

lemma not_dlt_iff_dle: "x \<noteq> DNaN \<Longrightarrow> y \<noteq> DNaN \<Longrightarrow> (\<not> dlt x y) = dle y x"
  by (cases x; cases y)
     (auto simp add: dle_def dlt_finite deq_finite simp del: dlt.simps(1) deq.simps(1))

lemma dle_trans: "dle x y \<Longrightarrow> dle y z \<Longrightarrow> dle x z"
  by (cases x; cases y; cases z)
     (auto simp add: dle_def dlt_finite deq_finite simp del: dlt.simps(1) deq.simps(1))

lemma dlt_dle_trans: "dlt x y \<Longrightarrow> dle y z \<Longrightarrow> dlt x z"
  by (cases x; cases y; cases z)
     (auto simp add: dle_def dlt_finite deq_finite simp del: dlt.simps(1) deq.simps(1))

subsection \<open>The conversions between \<^verbatim>\<open>int64_t\<close> and double\<close>

lemma bitlen_1: "bitlen 1 = 1"
  by (simp add: bitlen_alt_def)

text \<open>
  A whole number below \<open>2 ^ 53\<close> is its own rounding: the significand is the number
  shifted to 53 bits.
\<close>

lemma round_double_int_exact:
  assumes pos: "0 < a" and small: "a < 2 ^ 53"
  shows "round_double s a 1 = DFinite s (a * 2 ^ nat (53 - bitlen a)) (bitlen a - 53)"
proof -
  define L where "L = bitlen a"
  have b: "2 ^ nat (L - 1) \<le> a" "a < 2 ^ nat L"
    using bitlen_bounds [OF pos] by (simp_all add: L_def)
  have L53: "L \<le> 53" using small by (simp add: L_def bitlen_le_iff_power)
  have L1: "1 \<le> L"
  proof -
    have "bitlen a \<noteq> 0" using pos by (simp add: bitlen_eq_zero_iff)
    then show ?thesis using bitlen_nonneg [of a] by (simp add: L_def)
  qed
  have split53: "(2::int) ^ nat (L - 1) * 2 ^ nat (54 - L) = 2 ^ 53"
  proof -
    have "nat (L - 1) + nat (54 - L) = 53" using L1 L53 by linarith
    then show ?thesis by (simp add: power_add [symmetric])
  qed
  have big: "2 ^ 53 \<le> a * 2 ^ nat (54 - L)"
  proof -
    have "(2::int) ^ nat (L - 1) * 2 ^ nat (54 - L) \<le> a * 2 ^ nat (54 - L)"
      using b(1) by (intro mult_right_mono) simp_all
    then show ?thesis by (simp only: split53)
  qed
  have bin: "binade a 1 = L - 53"
  proof -
    have "scaled a 1 (L - 1 - 53) = (a * 2 ^ nat (54 - L), 1)"
      using L53 by (simp add: scaled_def)
    then show ?thesis using big
      by (simp add: binade_def bitlen_1 L_def [symmetric] Let_def)
  qed
  have e: "max (L - 53) (- 1074) = L - 53" using L1 by simp
  have sc: "scaled a 1 (L - 53) = (a * 2 ^ nat (53 - L), 1)"
    using L53 by (cases "L = 53") (simp_all add: scaled_def)
  have mpos: "a * 2 ^ nat (53 - L) \<noteq> 0" using pos by simp
  have mlt: "a * 2 ^ nat (53 - L) < 2 ^ 53"
  proof -
    have "a * 2 ^ nat (53 - L) < 2 ^ nat L * 2 ^ nat (53 - L)"
      using b(2) by (intro mult_strict_right_mono) simp_all
    moreover have "nat L + nat (53 - L) = 53" using L1 L53 by linarith
    then have "(2::int) ^ nat L * 2 ^ nat (53 - L) = 2 ^ 53" by (simp add: power_add [symmetric])
    ultimately show ?thesis by simp
  qed
  then have mne: "a * 2 ^ nat (53 - L) \<noteq> 2 ^ 53" by simp
  have e971: "\<not> 971 < L - 53" using L53 by simp
  show ?thesis
    using pos bin e sc mpos mne e971
    by (simp add: round_double_def Let_def L_def [symmetric])
qed

lemma int64_double_roundtrip_small:
  assumes "\<bar>x\<bar> < 2 ^ 53"
  shows "int64_of_double (double_of_int64 x) = Some x"
proof (cases "x = 0")
  case True
  then show ?thesis by (simp add: double_of_int64_def round_double_def)
next
  case False
  define a where "a = \<bar>x\<bar>"
  define L where "L = bitlen a"
  have pos: "0 < a" using False by (simp add: a_def)
  have small: "a < 2 ^ 53" using assms by (simp add: a_def)
  have L53: "L \<le> 53" using small by (simp add: L_def bitlen_le_iff_power)
  have d: "double_of_int64 x = DFinite (x < 0) (a * 2 ^ nat (53 - L)) (L - 53)"
    using round_double_int_exact [OF pos small] by (simp add: double_of_int64_def a_def L_def)
  have t: "(if 0 \<le> L - 53 then a * 2 ^ nat (53 - L) * 2 ^ nat (L - 53)
            else a * 2 ^ nat (53 - L) div 2 ^ nat (- (L - 53))) = a"
  proof (cases "L = 53")
    case True
    then show ?thesis by simp
  next
    case False
    then have "L < 53" using L53 by simp
    then have "nat (- (L - 53)) = nat (53 - L)" by simp
    then show ?thesis using \<open>L < 53\<close> by simp
  qed
  have r: "- (2 ^ 63) \<le> (if x < 0 then - a else a) \<and> (if x < 0 then - a else a) < 2 ^ 63"
    using small pos by auto
  have v: "(if x < 0 then - a else a) = x" by (simp add: a_def)
  show ?thesis
    unfolding d int64_of_double.simps Let_def t using r v by simp
qed

text \<open>
  An \<^verbatim>\<open>int64_t\<close> up to \<open>2 ^ 53\<close> in absolute value survives the conversion to double
  and back. Beyond, the conversion rounds, and the way back is undefined from
  \<open>2 ^ 63 - 512\<close> on, where the double is \<open>2 ^ 63\<close>.
\<close>

lemma int64_double_roundtrip:
  assumes "\<bar>x\<bar> \<le> 2 ^ 53"
  shows "int64_of_double (double_of_int64 x) = Some x"
proof (cases "\<bar>x\<bar> < 2 ^ 53")
  case True
  then show ?thesis by (rule int64_double_roundtrip_small)
next
  case False
  with assms have "x = 2 ^ 53 \<or> x = - (2 ^ 53)" by linarith
  moreover have "int64_of_double (double_of_int64 (2 ^ 53)) = Some (2 ^ 53)" by code_simp
  moreover have "int64_of_double (double_of_int64 (- (2 ^ 53))) = Some (- (2 ^ 53))" by code_simp
  ultimately show ?thesis by auto
qed

lemma int64_double_rounds:
  "int64_of_double (double_of_int64 (2 ^ 53 + 1)) = Some (2 ^ 53) \<and>
   int64_of_double (double_of_int64 (2 ^ 63 - 513)) = Some (2 ^ 63 - 1024) \<and>
   int64_of_double (double_of_int64 (2 ^ 63 - 512)) = None \<and>
   int64_of_double (double_of_int64 (- (2 ^ 63))) = Some (- (2 ^ 63))"
  by code_simp

subsection \<open>Zeros\<close>

lemma round_double_0: "round_double s 0 d = DFinite s 0 0"
  by (simp add: round_double_def)

lemma double_of_int64_0: "double_of_int64 0 = DFinite False 0 0"
  by (simp add: double_of_int64_def round_double_0)

lemma double_of_int64_minus_1: "double_of_int64 (- 1) = DFinite True (2 ^ 52) (- 52)"
  by code_simp

lemma dmul_zero_finite: "dmul (DFinite s 0 e) (DFinite t b eb) = DFinite (s \<noteq> t) 0 0"
  by (simp add: scaled_def round_double_0)

lemma int64_of_double_dadd_zero:
  "int64_of_double (dadd x (DFinite t 0 e)) = int64_of_double x"
proof (cases x)
  case (DFinite s a ea)
  show ?thesis
  proof (cases "a = 0")
    case True
    then show ?thesis using DFinite by simp
  next
    case False
    then show ?thesis using DFinite by simp
  qed
qed simp_all

subsection \<open>Rounding at work\<close>

text \<open>
  The quotient of 4 by 3 is rounded to the binary64 number \<^verbatim>\<open>0x1.5555555555555p+0\<close>,
  a quotient by zero is an infinity, and zero by zero is NaN.
\<close>

lemma ddiv_examples:
  "ddiv (double_of_int64 4) (double_of_int64 3) = DFinite False 6004799503160661 (- 52) \<and>
   ddiv (double_of_int64 4) (double_of_int64 0) = DInfinity False \<and>
   ddiv (double_of_int64 0) (double_of_int64 0) = DNaN \<and>
   ddiv (double_of_int64 5) (double_of_int64 2) = DFinite False (5 * 2 ^ 50) (- 51)"
  by code_simp


section \<open>Properties of the level model\<close>

lemma propagate_error_sets:
  "osr_error (openslide_propagate_error osr (Some msg)) \<noteq> None"
  by (simp add: openslide_propagate_error_def split: option.splits)

lemma propagate_error_keeps:
  "osr_error osr \<noteq> None \<Longrightarrow> osr_error (openslide_propagate_error osr err) \<noteq> None"
  by (auto simp: openslide_propagate_error_def split: option.splits)

lemma level_at_in_range:
  "0 \<le> i \<Longrightarrow> nat i < length (osr_levels osr) \<Longrightarrow>
   level_at osr i = Some (osr_levels osr ! nat i)"
  by (simp add: level_at_def)

lemma levels_ordered_lt:
  assumes ord: "levels_ordered osr" and i0: "0 \<le> i"
  shows "i < j \<Longrightarrow> j < osr_level_count osr \<Longrightarrow> dle (ds_at osr i) (ds_at osr j)"
proof (induction "nat (j - i)" arbitrary: j)
  case 0
  then show ?case by simp
next
  case (Suc n)
  have step: "dle (ds_at osr (j - 1)) (ds_at osr j)"
    using ord Suc.prems i0 by (simp add: levels_ordered_def)
  show ?case
  proof (cases "j - 1 = i")
    case True
    with step show ?thesis by simp
  next
    case False
    with Suc have a: "n = nat ((j - 1) - i)" and b: "i < j - 1" and c: "j - 1 < osr_level_count osr"
      by linarith+
    have "dle (ds_at osr i) (ds_at osr (j - 1))" by (rule Suc.hyps(1) [OF a b c])
    then show ?thesis using step by (rule dle_trans)
  qed
qed

subsection \<open>The scan for the best level\<close>

lemma best_level_scan_spec:
  assumes len: "nat (osr_level_count osr) \<le> length (osr_levels osr)"
    and ord: "levels_ordered osr"
  shows "1 \<le> i \<Longrightarrow> i \<le> osr_level_count osr \<Longrightarrow> dle (ds_at osr (i - 1)) target \<Longrightarrow>
         \<exists>r. best_level_scan osr target i = Some r \<and> 0 \<le> r \<and> r < osr_level_count osr \<and>
             dle (ds_at osr r) target \<and>
             (\<forall>j. r < j \<and> j < osr_level_count osr \<longrightarrow> dlt target (ds_at osr j))"
proof (induction "nat (osr_level_count osr - i)" arbitrary: i)
  case 0
  then have "i = osr_level_count osr" by simp
  then have "best_level_scan osr target i = Some (osr_level_count osr - 1)"
    by (simp add: best_level_scan.simps)
  with 0 show ?case by auto
next
  case (Suc n)
  then have lt: "i < osr_level_count osr" by linarith
  with Suc.prems len have at: "level_at osr i = Some (osr_levels osr ! nat i)"
    by (intro level_at_in_range) linarith+
  show ?case
  proof (cases "dlt target (ds_at osr i)")
    case True
    then have r: "best_level_scan osr target i = Some (i - 1)"
      using lt at by (simp add: best_level_scan.simps [of osr target i] ds_at_def)
    have "dlt target (ds_at osr j)" if "i - 1 < j" "j < osr_level_count osr" for j
    proof (cases "j = i")
      case True
      with \<open>dlt target (ds_at osr i)\<close> show ?thesis by simp
    next
      case False
      with that have "i < j" by linarith
      then have "dle (ds_at osr i) (ds_at osr j)"
        using levels_ordered_lt [OF ord, of i j] that Suc.prems by simp
      with \<open>dlt target (ds_at osr i)\<close> show ?thesis by (rule dlt_dle_trans)
    qed
    with r Suc.prems lt show ?thesis by auto
  next
    case False
    then have r: "best_level_scan osr target i = best_level_scan osr target (i + 1)"
      using lt at by (simp add: best_level_scan.simps [of osr target i] ds_at_def)
    have tn: "target \<noteq> DNaN" using Suc.prems(3) dle_not_nan by blast
    have "dle (ds_at osr (i - 1)) (ds_at osr i)"
      using ord Suc.prems lt by (simp add: levels_ordered_def)
    then have dn: "ds_at osr i \<noteq> DNaN" using dle_not_nan by blast
    have here: "dle (ds_at osr i) target"
      using False not_dlt_iff_dle [OF tn dn] by simp
    have "n = nat (osr_level_count osr - (i + 1))" using Suc.hyps(2) by linarith
    moreover have "1 \<le> i + 1" "i + 1 \<le> osr_level_count osr" using Suc.prems lt by linarith+
    moreover have "dle (ds_at osr (i + 1 - 1)) target" using here by simp
    ultimately show ?thesis using Suc.hyps(1) [of "i + 1"] r by simp
  qed
qed

lemma best_level_general:
  assumes err: "osr_error osr = None"
    and cnt: "1 \<le> osr_level_count osr"
    and len: "nat (osr_level_count osr) \<le> length (osr_levels osr)"
    and ord: "levels_ordered osr"
  shows "\<exists>r. openslide_get_best_level_for_downsample osr target = Some r \<and>
           (dlt target (ds_at osr 0) \<longrightarrow> r = 0) \<and>
           (dle (ds_at osr 0) target \<longrightarrow>
              0 \<le> r \<and> r < osr_level_count osr \<and> dle (ds_at osr r) target \<and>
              (\<forall>j. r < j \<and> j < osr_level_count osr \<longrightarrow> dlt target (ds_at osr j)))"
proof -
  have at0: "level_at osr 0 = Some (osr_levels osr ! 0)"
  proof -
    have "0 < length (osr_levels osr)" using cnt len by linarith
    then show ?thesis by (simp add: level_at_def)
  qed
  show ?thesis
  proof (cases "dlt target (ds_at osr 0)")
    case True
    then have "\<not> dle (ds_at osr 0) target"
      by (cases target; cases "ds_at osr 0")
         (auto simp add: dle_def dlt_finite deq_finite simp del: dlt.simps(1) deq.simps(1))
    with True show ?thesis
      using err at0
      by (simp add: openslide_get_best_level_for_downsample_def openslide_get_error_def ds_at_def)
  next
    case False
    then have eq: "openslide_get_best_level_for_downsample osr target = best_level_scan osr target 1"
      using err at0
      by (simp add: openslide_get_best_level_for_downsample_def openslide_get_error_def ds_at_def)
    show ?thesis
    proof (cases "dle (ds_at osr 0) target")
      case True
      then have "dle (ds_at osr (1 - 1)) target" by simp
      from best_level_scan_spec [OF len ord _ cnt this] eq False show ?thesis by auto
    next
      case nle: False
      have "\<exists>r. best_level_scan osr target 1 = Some r"
      proof -
        have "\<exists>r. best_level_scan osr target i = Some r" if "1 \<le> i" for i
          using that
        proof (induction "nat (osr_level_count osr - i)" arbitrary: i)
          case 0
          then show ?case by (simp add: best_level_scan.simps [of osr target i])
        next
          case (Suc n)
          then have lt: "i < osr_level_count osr" by linarith
          with Suc.prems len have at: "level_at osr i = Some (osr_levels osr ! nat i)"
            by (intro level_at_in_range) linarith+
          have "n = nat (osr_level_count osr - (i + 1))" using Suc.hyps(2) by linarith
          then have "\<exists>r. best_level_scan osr target (i + 1) = Some r"
            using Suc.hyps(1) [of "i + 1"] Suc.prems by simp
          then show ?case using lt at by (auto simp: best_level_scan.simps [of osr target i])
        qed
        then show ?thesis by simp
      qed
      with eq False nle show ?thesis by simp
    qed
  qed
qed

text \<open>
  Claim C4, against the claim as stated. Levels 1 and 2 of the handle have the same
  downsample 4; \<^verbatim>\<open>openslide_open\<close> returns such a handle, since 4 is not below 4.
  For the target 4 the scan passes every level whose downsample is not above the
  target, because the test is \<^verbatim>\<open>downsample < osr->levels[i]->downsample\<close>, and
  returns level 2, the higher of the two indices; the claim says that ties favor the
  lower index. And for a target that is NaN, which is not below level 0's downsample
  and which no level's downsample is at most, the call returns the last level.
\<close>

theorem best_level_tie_returns_higher_index:
  "openslide_open \<lparr>env_detected = True, env_pixman_works = True,
       env_open_backend =
         Inr (osr_of [level_of 1 0 0, level_of 4 0 0, level_of 4 0 0, level_of 16 0 0] 1)\<rparr> =
     Some (Handle (osr_of [level_of 1 0 0, level_of 4 0 0, level_of 4 0 0, level_of 16 0 0] 1)) \<and>
   openslide_get_best_level_for_downsample
     (osr_of [level_of 1 0 0, level_of 4 0 0, level_of 4 0 0, level_of 16 0 0] 1)
     (double_of_int64 4) = Some 2 \<and>
   ds_at (osr_of [level_of 1 0 0, level_of 4 0 0, level_of 4 0 0, level_of 16 0 0] 1) 1 =
     double_of_int64 4 \<and>
   ds_at (osr_of [level_of 1 0 0, level_of 4 0 0, level_of 4 0 0, level_of 16 0 0] 1) 2 =
     double_of_int64 4 \<and>
   openslide_get_best_level_for_downsample
     (osr_of [level_of 1 0 0, level_of 4 0 0, level_of 16 0 0] 1) DNaN = Some 2 \<and>
   \<not> dlt DNaN (double_of_int64 1) \<and>
   \<not> dle (double_of_int64 1) DNaN \<and> \<not> dle (double_of_int64 4) DNaN \<and>
   \<not> dle (double_of_int64 16) DNaN"
  by code_simp

text \<open>
  Claim C4, amended. On a handle without error that holds at least one level, with the
  levels' downsamples non-decreasing, \<^verbatim>\<open>openslide_get_best_level_for_downsample\<close>
  returns 0 when the target is below level 0's downsample; and when level 0's
  downsample is at most the target, it returns the last level whose downsample is at
  most the target: the level returned has a downsample at most the target and every
  later level has a larger one, so among levels of equal downsample it is the one of
  highest index. For the downsamples 1, 4, 16 it returns 0 for the target 0.5, 1 for
  4, 1 for 10 and 2 for 100.
\<close>

theorem best_level_for_downsample_correct:
  "(\<forall>osr target.
      osr_error osr = None \<and> 1 \<le> osr_level_count osr \<and>
      nat (osr_level_count osr) \<le> length (osr_levels osr) \<and> levels_ordered osr \<longrightarrow>
      (\<exists>r. openslide_get_best_level_for_downsample osr target = Some r \<and>
           (dlt target (ds_at osr 0) \<longrightarrow> r = 0) \<and>
           (dle (ds_at osr 0) target \<longrightarrow>
              0 \<le> r \<and> r < osr_level_count osr \<and> dle (ds_at osr r) target \<and>
              (\<forall>j. r < j \<and> j < osr_level_count osr \<longrightarrow> dlt target (ds_at osr j))))) \<and>
   openslide_get_best_level_for_downsample
     (osr_of [level_of 1 0 0, level_of 4 0 0, level_of 16 0 0] 1)
     (ddiv (double_of_int64 1) (double_of_int64 2)) = Some 0 \<and>
   openslide_get_best_level_for_downsample
     (osr_of [level_of 1 0 0, level_of 4 0 0, level_of 16 0 0] 1) (double_of_int64 4) = Some 1 \<and>
   openslide_get_best_level_for_downsample
     (osr_of [level_of 1 0 0, level_of 4 0 0, level_of 16 0 0] 1) (double_of_int64 10) = Some 1 \<and>
   openslide_get_best_level_for_downsample
     (osr_of [level_of 1 0 0, level_of 4 0 0, level_of 16 0 0] 1) (double_of_int64 100) = Some 2"
proof -
  have ex: "openslide_get_best_level_for_downsample
     (osr_of [level_of 1 0 0, level_of 4 0 0, level_of 16 0 0] 1)
     (ddiv (double_of_int64 1) (double_of_int64 2)) = Some 0"
    "openslide_get_best_level_for_downsample
     (osr_of [level_of 1 0 0, level_of 4 0 0, level_of 16 0 0] 1) (double_of_int64 4) = Some 1"
    "openslide_get_best_level_for_downsample
     (osr_of [level_of 1 0 0, level_of 4 0 0, level_of 16 0 0] 1) (double_of_int64 10) = Some 1"
    "openslide_get_best_level_for_downsample
     (osr_of [level_of 1 0 0, level_of 4 0 0, level_of 16 0 0] 1) (double_of_int64 100) = Some 2"
    by code_simp+
  show ?thesis
    using best_level_general ex by blast
qed

theorem best_level_for_downsample_correct_witness:
  "osr_error (osr_of [level_of 1 4 4, level_of 2 2 2, level_of 2 2 2] 1) = None \<and>
   1 \<le> osr_level_count (osr_of [level_of 1 4 4, level_of 2 2 2, level_of 2 2 2] 1) \<and>
   nat (osr_level_count (osr_of [level_of 1 4 4, level_of 2 2 2, level_of 2 2 2] 1))
     \<le> length (osr_levels (osr_of [level_of 1 4 4, level_of 2 2 2, level_of 2 2 2] 1)) \<and>
   levels_ordered (osr_of [level_of 1 4 4, level_of 2 2 2, level_of 2 2 2] 1) \<and>
   dle (ds_at (osr_of [level_of 1 4 4, level_of 2 2 2, level_of 2 2 2] 1) 0) (double_of_int64 3) \<and>
   (\<exists>r. openslide_get_best_level_for_downsample
          (osr_of [level_of 1 4 4, level_of 2 2 2, level_of 2 2 2] 1) (double_of_int64 3) = Some r \<and>
        dle (ds_at (osr_of [level_of 1 4 4, level_of 2 2 2, level_of 2 2 2] 1) r) (double_of_int64 3)) \<and>
   openslide_get_best_level_for_downsample
     (osr_of [level_of 1 4 4, level_of 2 2 2, level_of 2 2 2] 1) (double_of_int64 3) = Some 2"
proof -
  let ?osr = "osr_of [level_of 1 4 4, level_of 2 2 2, level_of 2 2 2] 1"
  have d: "dle (ds_at ?osr 0) (ds_at ?osr 1)" "dle (ds_at ?osr 1) (ds_at ?osr 2)"
    "dle (ds_at ?osr 0) (double_of_int64 3)"
    by code_simp+
  have ord: "levels_ordered ?osr"
    unfolding levels_ordered_def
  proof (intro allI impI)
    fix i
    assume "1 \<le> i \<and> i < osr_level_count ?osr"
    then have "1 \<le> i \<and> i < 3" by (simp add: osr_of_def)
    then have "i = 1 \<or> i = 2" by linarith
    then show "dle (ds_at ?osr (i - 1)) (ds_at ?osr i)" using d(1,2) by auto
  qed
  have hyp: "osr_error ?osr = None \<and> 1 \<le> osr_level_count ?osr \<and>
      nat (osr_level_count ?osr) \<le> length (osr_levels ?osr) \<and> levels_ordered ?osr"
    using ord by (simp add: osr_of_def)
  from best_level_for_downsample_correct hyp d(3)
  have "\<exists>r. openslide_get_best_level_for_downsample ?osr (double_of_int64 3) = Some r \<and>
      dle (ds_at ?osr r) (double_of_int64 3)"
    by blast
  moreover have "openslide_get_best_level_for_downsample ?osr (double_of_int64 3) = Some 2"
    by code_simp
  ultimately show ?thesis using hyp d(3) by simp
qed

subsection \<open>The downsamples computed and checked by \<^verbatim>\<open>openslide_open\<close>\<close>

lemma check_downsamples_loop_spec:
  assumes len: "nat (osr_level_count osr) \<le> length (osr_levels osr)"
  shows "1 \<le> i \<Longrightarrow> check_downsamples_loop osr i =
           Some (\<forall>k. i \<le> k \<and> k < osr_level_count osr \<longrightarrow>
                    \<not> dlt (ds_at osr k) (ds_at osr (k - 1)))"
proof (induction "nat (osr_level_count osr - i)" arbitrary: i)
  case 0
  then have "\<not> i < osr_level_count osr" by simp
  then show ?case by (auto simp: check_downsamples_loop.simps [of osr i])
next
  case (Suc n)
  then have lt: "i < osr_level_count osr" by linarith
  have at: "level_at osr i = Some (osr_levels osr ! nat i)"
    using lt Suc.prems len by (intro level_at_in_range) linarith+
  have atp: "level_at osr (i - 1) = Some (osr_levels osr ! nat (i - 1))"
    using lt Suc.prems len by (intro level_at_in_range) linarith+
  show ?case
  proof (cases "dlt (ds_at osr i) (ds_at osr (i - 1))")
    case True
    then have "check_downsamples_loop osr i = Some False"
      using lt at atp by (simp add: check_downsamples_loop.simps [of osr i] ds_at_def)
    moreover have "\<not> (\<forall>k. i \<le> k \<and> k < osr_level_count osr \<longrightarrow>
                        \<not> dlt (ds_at osr k) (ds_at osr (k - 1)))"
      using True lt by (auto intro: exI [of _ i])
    ultimately show ?thesis by simp
  next
    case False
    then have step: "check_downsamples_loop osr i = check_downsamples_loop osr (i + 1)"
      using lt at atp by (simp add: check_downsamples_loop.simps [of osr i] ds_at_def)
    have "n = nat (osr_level_count osr - (i + 1))" using Suc.hyps(2) by linarith
    then have ih: "check_downsamples_loop osr (i + 1) =
        Some (\<forall>k. i + 1 \<le> k \<and> k < osr_level_count osr \<longrightarrow>
                 \<not> dlt (ds_at osr k) (ds_at osr (k - 1)))"
      using Suc.hyps(1) [of "i + 1"] Suc.prems by simp
    have "(\<forall>k. i + 1 \<le> k \<and> k < osr_level_count osr \<longrightarrow>
               \<not> dlt (ds_at osr k) (ds_at osr (k - 1))) =
          (\<forall>k. i \<le> k \<and> k < osr_level_count osr \<longrightarrow>
               \<not> dlt (ds_at osr k) (ds_at osr (k - 1)))"
    proof -
      have "\<not> dlt (ds_at osr k) (ds_at osr (k - 1))"
        if h: "\<forall>k. i + 1 \<le> k \<and> k < osr_level_count osr \<longrightarrow>
                   \<not> dlt (ds_at osr k) (ds_at osr (k - 1))"
          and k: "i \<le> k" "k < osr_level_count osr" for k
      proof (cases "k = i")
        case True with False show ?thesis by simp
      next
        case False with h k show ?thesis by simp
      qed
      then show ?thesis by auto
    qed
    with step ih show ?thesis by simp
  qed
qed

lemma check_downsamples_no_level_below:
  "nat (osr_level_count osr) \<le> length (osr_levels osr) \<Longrightarrow>
   check_downsamples_loop osr 1 = Some (no_level_below_predecessor osr)"
  using check_downsamples_loop_spec [of osr 1] by (simp add: no_level_below_predecessor_def)

text \<open>
  Without NaN, passing the check is being non-decreasing.
\<close>

lemma no_level_below_iff_ordered:
  assumes "no_nan_downsample osr"
  shows "no_level_below_predecessor osr = levels_ordered osr"
proof -
  have "(\<not> dlt (ds_at osr i) (ds_at osr (i - 1))) = dle (ds_at osr (i - 1)) (ds_at osr i)"
    if "1 \<le> i" "i < osr_level_count osr" for i
  proof -
    have "ds_at osr i \<noteq> DNaN" "ds_at osr (i - 1) \<noteq> DNaN"
      using assms that by (simp_all add: no_nan_downsample_def)
    then show ?thesis by (rule not_dlt_iff_dle)
  qed
  then show ?thesis by (auto simp: no_level_below_predecessor_def levels_ordered_def)
qed

lemma compute_downsamples_loop_spec:
  "nat (osr_level_count osr) \<le> length (osr_levels osr) \<Longrightarrow> 0 \<le> j \<Longrightarrow>
   \<exists>ls. compute_downsamples_loop blw blh osr j = Some (osr\<lparr>osr_levels := ls\<rparr>) \<and>
        length ls = length (osr_levels osr) \<and>
        (\<forall>k < length ls. ls ! k =
           (if j \<le> int k \<and> int k < osr_level_count osr \<and> deq (level_downsample (osr_levels osr ! k)) (double_of_int64 0)
            then (osr_levels osr ! k)\<lparr>level_downsample := inferred_downsample blw blh (osr_levels osr ! k)\<rparr>
            else osr_levels osr ! k))"
proof (induction "nat (osr_level_count osr - j)" arbitrary: osr j)
  case 0
  then have "\<not> j < osr_level_count osr" by simp
  then have "compute_downsamples_loop blw blh osr j = Some (osr\<lparr>osr_levels := osr_levels osr\<rparr>)"
    by (simp add: compute_downsamples_loop.simps [of blw blh osr j])
  then show ?case using \<open>\<not> j < osr_level_count osr\<close>
    by (intro exI [of _ "osr_levels osr"]) auto
next
  case (Suc n)
  then have lt: "j < osr_level_count osr" by linarith
  have jl: "nat j < length (osr_levels osr)" using lt Suc.prems by linarith
  have at: "level_at osr j = Some (osr_levels osr ! nat j)"
    using jl Suc.prems by (intro level_at_in_range)
  define l where "l = osr_levels osr ! nat j"
  define osr1 where "osr1 = (if deq (level_downsample l) (double_of_int64 0)
      then set_level osr j (l\<lparr>level_downsample := inferred_downsample blw blh l\<rparr>) else osr)"
  have step: "compute_downsamples_loop blw blh osr j = compute_downsamples_loop blw blh osr1 (j + 1)"
    using lt at
    by (simp add: compute_downsamples_loop.simps [of blw blh osr j] osr1_def l_def
        inferred_downsample_def)
  have c1: "osr_level_count osr1 = osr_level_count osr" by (simp add: osr1_def set_level_def)
  have len1: "length (osr_levels osr1) = length (osr_levels osr)" by (simp add: osr1_def set_level_def)
  have n1: "n = nat (osr_level_count osr1 - (j + 1))" using Suc.hyps(2) c1 by linarith
  have b1: "nat (osr_level_count osr1) \<le> length (osr_levels osr1)" using Suc.prems c1 len1 by simp
  have j1: "0 \<le> j + 1" using Suc.prems by simp
  obtain ls where ls: "compute_downsamples_loop blw blh osr1 (j + 1) = Some (osr1\<lparr>osr_levels := ls\<rparr>)"
      "length ls = length (osr_levels osr1)"
      "\<forall>k < length ls. ls ! k =
           (if j + 1 \<le> int k \<and> int k < osr_level_count osr1 \<and> deq (level_downsample (osr_levels osr1 ! k)) (double_of_int64 0)
            then (osr_levels osr1 ! k)\<lparr>level_downsample := inferred_downsample blw blh (osr_levels osr1 ! k)\<rparr>
            else osr_levels osr1 ! k)"
    using Suc.hyps(1) [OF n1 b1 j1] by blast
  have eq: "osr1\<lparr>osr_levels := ls\<rparr> = osr\<lparr>osr_levels := ls\<rparr>"
    by (simp add: osr1_def set_level_def)
  have lev1: "osr_levels osr1 ! k = (if k = nat j \<and> deq (level_downsample l) (double_of_int64 0)
       then l\<lparr>level_downsample := inferred_downsample blw blh l\<rparr> else osr_levels osr ! k)"
    if "k < length (osr_levels osr)" for k
    using that by (simp add: osr1_def set_level_def nth_list_update)
  have "ls ! k =
           (if j \<le> int k \<and> int k < osr_level_count osr \<and> deq (level_downsample (osr_levels osr ! k)) (double_of_int64 0)
            then (osr_levels osr ! k)\<lparr>level_downsample := inferred_downsample blw blh (osr_levels osr ! k)\<rparr>
            else osr_levels osr ! k)" if k: "k < length ls" for k
  proof (cases "k = nat j")
    case True
    then have "\<not> j + 1 \<le> int k" using Suc.prems by simp
    then have "ls ! k = osr_levels osr1 ! k" using ls(3) k by simp
    also have "\<dots> = (if deq (level_downsample l) (double_of_int64 0)
       then l\<lparr>level_downsample := inferred_downsample blw blh l\<rparr> else osr_levels osr ! k)"
      using lev1 [of k] k ls(2) len1 True by simp
    finally show ?thesis using True lt Suc.prems by (simp add: l_def)
  next
    case False
    then have a: "osr_levels osr1 ! k = osr_levels osr ! k"
      using lev1 [of k] k ls(2) len1 by simp
    have b: "(j + 1 \<le> int k) = (j \<le> int k)" using False Suc.prems by linarith
    show ?thesis using ls(3) k by (simp add: a b c1)
  qed
  with step ls(1,2) eq len1 show ?case by auto
qed

text \<open>
  The whole computation on a handle whose array holds its \<open>level_count\<close> levels: it
  returns, it keeps the counts, and it changes nothing at a level from 1 on but the
  downsample of a level that carried the zero sentinel.
\<close>

lemma compute_downsamples_spec:
  assumes len: "nat (osr_level_count osr) \<le> length (osr_levels osr)"
    and nonneg: "0 \<le> osr_level_count osr"
  shows "\<exists>osr'. compute_downsamples osr = Some osr' \<and>
           osr_level_count osr' = osr_level_count osr \<and>
           length (osr_levels osr') = length (osr_levels osr) \<and>
           (\<forall>blw blh i. openslide_get_level0_dimensions osr = Some (blw, blh) \<and>
                1 \<le> i \<and> i < osr_level_count osr \<and> deq (ds_at osr i) (double_of_int64 0) \<longrightarrow>
                ds_at osr' i = inferred_downsample blw blh (osr_levels osr ! nat i))"
proof -
  obtain blw blh where dims: "openslide_get_level0_dimensions osr = Some (blw, blh)"
  proof (cases "openslide_get_error osr \<noteq> None \<or> \<not> level_in_range osr 0")
    case True
    then have "openslide_get_level0_dimensions osr = Some (-1, -1)"
      by (auto simp: openslide_get_level0_dimensions_def openslide_get_level_dimensions_def)
    then show ?thesis using that by blast
  next
    case False
    then have "1 \<le> osr_level_count osr" by (simp add: level_in_range_def split: if_splits)
    then have "0 < length (osr_levels osr)" using len by linarith
    then have "level_at osr 0 = Some (osr_levels osr ! 0)" by (simp add: level_at_def)
    with False have "openslide_get_level0_dimensions osr =
        Some (level_w (osr_levels osr ! 0), level_h (osr_levels osr ! 0))"
      by (simp add: openslide_get_level0_dimensions_def openslide_get_level_dimensions_def)
    then show ?thesis using that by blast
  qed
  obtain osr1 where fix0: "fix_level0_downsample osr = Some osr1"
    and c1: "osr_level_count osr1 = osr_level_count osr"
    and len1: "length (osr_levels osr1) = length (osr_levels osr)"
    and lev1: "\<And>k. 0 < k \<Longrightarrow> osr_levels osr1 ! k = osr_levels osr ! k"
  proof (cases "osr_level_count osr = 0")
    case True
    then have "fix_level0_downsample osr = Some osr" by (simp add: fix_level0_downsample_def)
    then show ?thesis using that [of osr] by simp
  next
    case False
    then have "0 < length (osr_levels osr)" using len nonneg by linarith
    then have at0: "level_at osr 0 = Some (osr_levels osr ! 0)" by (simp add: level_at_def)
    show ?thesis
    proof (cases "deq (level_downsample (osr_levels osr ! 0)) (double_of_int64 0)")
      case z: True
      have "fix_level0_downsample osr =
          Some (set_level osr 0 ((osr_levels osr ! 0)\<lparr>level_downsample := double_of_int64 1\<rparr>))"
        using False at0 z by (simp add: fix_level0_downsample_def)
      then show ?thesis
        using that [of "set_level osr 0 ((osr_levels osr ! 0)\<lparr>level_downsample := double_of_int64 1\<rparr>)"]
        by (simp add: set_level_def)
    next
      case nz: False
      have "fix_level0_downsample osr = Some osr"
        using False at0 nz by (simp add: fix_level0_downsample_def)
      then show ?thesis using that [of osr] by simp
    qed
  qed
  have b1: "nat (osr_level_count osr1) \<le> length (osr_levels osr1)" using len c1 len1 by simp
  obtain ls where ls: "compute_downsamples_loop blw blh osr1 1 = Some (osr1\<lparr>osr_levels := ls\<rparr>)"
      "length ls = length (osr_levels osr1)"
      "\<forall>k < length ls. ls ! k =
           (if 1 \<le> int k \<and> int k < osr_level_count osr1 \<and> deq (level_downsample (osr_levels osr1 ! k)) (double_of_int64 0)
            then (osr_levels osr1 ! k)\<lparr>level_downsample := inferred_downsample blw blh (osr_levels osr1 ! k)\<rparr>
            else osr_levels osr1 ! k)"
    using compute_downsamples_loop_spec [OF b1, of 1 blw blh] by auto
  have res: "compute_downsamples osr = Some (osr1\<lparr>osr_levels := ls\<rparr>)"
    using dims fix0 ls(1) by (simp add: compute_downsamples_def)
  have "ds_at (osr1\<lparr>osr_levels := ls\<rparr>) i = inferred_downsample blw blh (osr_levels osr ! nat i)"
    if i: "1 \<le> i" "i < osr_level_count osr" "deq (ds_at osr i) (double_of_int64 0)" for i
  proof -
    have k: "nat i < length ls" "0 < nat i" "1 \<le> int (nat i)" "int (nat i) < osr_level_count osr1"
      using i len ls(2) len1 c1 by linarith+
    have same: "osr_levels osr1 ! nat i = osr_levels osr ! nat i" using lev1 k(2) by simp
    have "ls ! nat i = (osr_levels osr ! nat i)
        \<lparr>level_downsample := inferred_downsample blw blh (osr_levels osr ! nat i)\<rparr>"
      using ls(3) k i(3) same by (simp add: ds_at_def)
    then show ?thesis by (simp add: ds_at_def)
  qed
  with res dims c1 len1 ls(2) show ?thesis by auto
qed

text \<open>
  The open path in binary64: a level of 3 by 3 under a level 0 of 4 by 4 gets the
  rounded quotient \<^verbatim>\<open>0x1.5555555555555p+0\<close>, and a level of width and height zero
  gets infinity, which passes the check of the order; both handles are returned.
\<close>

lemma open_downsample_rounded:
  "openslide_open \<lparr>env_detected = True, env_pixman_works = True,
       env_open_backend = Inr (osr_of [level_of 0 4 4, level_of 0 3 3] 1)\<rparr> =
     Some (Handle (osr_of [level_of 1 4 4,
                           level_with (DFinite False 6004799503160661 (- 52)) 3 3] 1)) \<and>
   openslide_open \<lparr>env_detected = True, env_pixman_works = True,
       env_open_backend = Inr (osr_of [level_of 0 4 4, level_of 0 0 0] 1)\<rparr> =
     Some (Handle (osr_of [level_of 1 4 4, level_with (DInfinity False) 0 0] 1))"
  by code_simp

text \<open>
  Claim C5, against the claim as stated. Level 0 is 4 wide and 16 high, level 1 is 4
  wide and 4 high, and the backend left both downsamples at the zero sentinel. The open
  path stores 2.5 for level 1, the arithmetic mean of the height ratio 4 and the width
  ratio 1; their geometric mean is 2. All the numbers involved are exact in binary64.
\<close>

theorem open_downsample_not_geometric_mean:
  "compute_downsamples (osr_of [level_of 0 4 16, level_of 0 4 4] 1) =
     Some (osr_of [level_of 1 4 16,
                   level_with (ddiv (double_of_int64 5) (double_of_int64 2)) 4 4] 1) \<and>
   openslide_open \<lparr>env_detected = True, env_pixman_works = True,
       env_open_backend = Inr (osr_of [level_of 0 4 16, level_of 0 4 4] 1)\<rparr> =
     Some (Handle (osr_of [level_of 1 4 16,
                           level_with (ddiv (double_of_int64 5) (double_of_int64 2)) 4 4] 1)) \<and>
   dval (ddiv (double_of_int64 5) (double_of_int64 2)) = 5 / 2 \<and>
   spec_geometric_mean_downsample 4 16 (level_of 0 4 4) = 2 \<and>
   dval (ds_at (osr_of [level_of 1 4 16,
                        level_with (ddiv (double_of_int64 5) (double_of_int64 2)) 4 4] 1) 1)
     \<noteq> spec_geometric_mean_downsample 4 16 (level_of 0 4 4)"
proof -
  have c: "compute_downsamples (osr_of [level_of 0 4 16, level_of 0 4 4] 1) =
     Some (osr_of [level_of 1 4 16,
                   level_with (ddiv (double_of_int64 5) (double_of_int64 2)) 4 4] 1)"
    by code_simp
  have k: "openslide_open \<lparr>env_detected = True, env_pixman_works = True,
       env_open_backend = Inr (osr_of [level_of 0 4 16, level_of 0 4 4] 1)\<rparr> =
     Some (Handle (osr_of [level_of 1 4 16,
                           level_with (ddiv (double_of_int64 5) (double_of_int64 2)) 4 4] 1))"
    by code_simp
  have e: "ddiv (double_of_int64 5) (double_of_int64 2) = DFinite False (5 * 2 ^ 50) (- 51)"
    by code_simp
  have v: "dval (ddiv (double_of_int64 5) (double_of_int64 2)) = 5 / 2"
    unfolding e by simp
  have g: "spec_geometric_mean_downsample 4 16 (level_of 0 4 4) = 2"
    by (simp add: spec_geometric_mean_downsample_def level_of_def level_with_def)
  have d: "ds_at (osr_of [level_of 1 4 16,
                        level_with (ddiv (double_of_int64 5) (double_of_int64 2)) 4 4] 1) 1 =
      ddiv (double_of_int64 5) (double_of_int64 2)"
    by (simp add: ds_at_def osr_of_def level_with_def)
  show ?thesis
    unfolding d using c k v g by simp
qed

text \<open>
  Claim C5, amended. On the handle a backend returns without error, with its
  \<open>level_count\<close> levels in the array, every level after level 0 whose downsample is
  the zero sentinel gets the arithmetic mean of the height ratio and the width ratio
  of level 0's dimensions to that level's dimensions, computed in binary64:
  \<^verbatim>\<open>((double) blh / (double) h + (double) blw / (double) w) / 2.0\<close>, each of the
  three operations rounded to nearest. A width or height of zero gives an infinity
  or NaN.
\<close>

theorem open_downsample_arithmetic_mean:
  assumes "osr_error osr = None"
    and "nat (osr_level_count osr) \<le> length (osr_levels osr)"
    and "1 \<le> i" and "i < osr_level_count osr"
    and "deq (ds_at osr i) (double_of_int64 0)"
  shows "\<exists>osr'. compute_downsamples osr = Some osr' \<and>
           ds_at osr' i =
             ddiv (dadd (ddiv (double_of_int64 (level_h (osr_levels osr ! 0)))
                              (double_of_int64 (level_h (osr_levels osr ! nat i))))
                        (ddiv (double_of_int64 (level_w (osr_levels osr ! 0)))
                              (double_of_int64 (level_w (osr_levels osr ! nat i)))))
                  (double_of_int64 2)"
proof -
  have nonneg: "0 \<le> osr_level_count osr" using assms(3,4) by linarith
  have "0 < length (osr_levels osr)" using assms(2,3,4) by linarith
  then have at0: "level_at osr 0 = Some (osr_levels osr ! 0)" by (simp add: level_at_def)
  have dims: "openslide_get_level0_dimensions osr =
      Some (level_w (osr_levels osr ! 0), level_h (osr_levels osr ! 0))"
    using assms(1,3,4) at0
    by (simp add: openslide_get_level0_dimensions_def openslide_get_level_dimensions_def
        openslide_get_error_def level_in_range_def)
  from compute_downsamples_spec [OF assms(2) nonneg] dims assms(3,4,5)
  show ?thesis by (auto simp: inferred_downsample_def)
qed

theorem open_downsample_arithmetic_mean_witness:
  "osr_error (osr_of [level_of 1 8 8, level_of 0 3 4] 1) = None \<and>
   deq (ds_at (osr_of [level_of 1 8 8, level_of 0 3 4] 1) 1) (double_of_int64 0) \<and>
   (\<exists>osr'. compute_downsamples (osr_of [level_of 1 8 8, level_of 0 3 4] 1) = Some osr' \<and>
           ds_at osr' 1 = DFinite False 5254199565265578 (- 51))"
proof -
  let ?osr = "osr_of [level_of 1 8 8, level_of 0 3 4] 1"
  have h: "osr_error ?osr = None" "nat (osr_level_count ?osr) \<le> length (osr_levels ?osr)"
    "(1::int) \<le> 1" "1 < osr_level_count ?osr"
    by (simp_all add: osr_of_def)
  have z: "deq (ds_at ?osr 1) (double_of_int64 0)" by code_simp
  have v: "ddiv (dadd (ddiv (double_of_int64 (level_h (osr_levels ?osr ! 0)))
                              (double_of_int64 (level_h (osr_levels ?osr ! nat 1))))
                        (ddiv (double_of_int64 (level_w (osr_levels ?osr ! 0)))
                              (double_of_int64 (level_w (osr_levels ?osr ! nat 1)))))
                  (double_of_int64 2) = DFinite False 5254199565265578 (- 51)"
    by code_simp
  from open_downsample_arithmetic_mean [OF h z]
  have "\<exists>osr'. compute_downsamples ?osr = Some osr' \<and>
      ds_at osr' 1 = DFinite False 5254199565265578 (- 51)"
    unfolding v .
  with h z show ?thesis by simp
qed

lemma open_downsample_check_outcome:
  assumes "env_detected env" and "env_pixman_works env"
    and "env_open_backend env = Inr osr"
    and "0 \<le> osr_level_count osr"
    and "nat (osr_level_count osr) \<le> length (osr_levels osr)"
  shows "\<exists>osr'. compute_downsamples osr = Some osr' \<and>
           osr_level_count osr' = osr_level_count osr \<and>
           length (osr_levels osr') = length (osr_levels osr) \<and>
           (\<not> no_level_below_predecessor osr' \<longrightarrow> openslide_open env = Some NULL) \<and>
           (no_level_below_predecessor osr' \<longrightarrow> openslide_open env = Some (Handle osr'))"
proof -
  obtain osr' where c: "compute_downsamples osr = Some osr'"
    and n: "osr_level_count osr' = osr_level_count osr"
    and l: "length (osr_levels osr') = length (osr_levels osr)"
    using compute_downsamples_spec [OF assms(5,4)] by blast
  then have "nat (osr_level_count osr') \<le> length (osr_levels osr')" using assms(5) by simp
  then have k: "check_downsamples_loop osr' 1 = Some (no_level_below_predecessor osr')"
    by (rule check_downsamples_no_level_below)
  show ?thesis
    using assms(1,2,3) c n l k by (simp add: openslide_open_def)
qed




text \<open>
  A handle without error that \<^verbatim>\<open>openslide_open\<close> returns, and in which no
  downsample is NaN, has its levels in order: the hypothesis of the theorem on the
  best level is what the open path guarantees.
\<close>

lemma open_handle_levels_ordered:
  assumes op: "openslide_open env = Some (Handle osr)"
    and err: "osr_error osr = None"
    and nan: "no_nan_downsample osr"
    and wf: "\<And>osr0. env_open_backend env = Inr osr0 \<Longrightarrow>
               0 \<le> osr_level_count osr0 \<and> nat (osr_level_count osr0) \<le> length (osr_levels osr0)"
  shows "levels_ordered osr \<and> nat (osr_level_count osr) \<le> length (osr_levels osr)"
proof -
  have det: "env_detected env" using op by (auto simp: openslide_open_def split: if_splits)
  have pix: "env_pixman_works env"
  proof (rule ccontr)
    assume "\<not> env_pixman_works env"
    then have "osr = openslide_propagate_error new_osr
        (Some ''pixman 0.38.x does not render correctly; upgrade or downgrade pixman'')"
      using op det by (simp add: openslide_open_def)
    with err show False using propagate_error_sets by metis
  qed
  obtain osr0 where be: "env_open_backend env = Inr osr0"
  proof (cases "env_open_backend env")
    case (Inl msg)
    then have "osr = openslide_propagate_error new_osr (Some msg)"
      using op det pix by (simp add: openslide_open_def)
    with err have False using propagate_error_sets by metis
    then show ?thesis ..
  next
    case (Inr osr0)
    then show ?thesis using that by blast
  qed
  from wf [OF be] have nn: "0 \<le> osr_level_count osr0"
    and len: "nat (osr_level_count osr0) \<le> length (osr_levels osr0)" by simp_all
  from open_downsample_check_outcome [OF det pix be nn len]
  obtain osr' where c: "compute_downsamples osr0 = Some osr'"
    and cnt: "osr_level_count osr' = osr_level_count osr0"
    and ln: "length (osr_levels osr') = length (osr_levels osr0)"
    and no: "\<not> no_level_below_predecessor osr' \<longrightarrow> openslide_open env = Some NULL"
    and yes: "no_level_below_predecessor osr' \<longrightarrow> openslide_open env = Some (Handle osr')"
    by blast
  have p: "no_level_below_predecessor osr'" using no op by auto
  moreover from this yes op have "osr' = osr" by simp
  ultimately show ?thesis using cnt ln len no_level_below_iff_ordered [OF nan] by simp
qed

section \<open>Properties of the region reader\<close>

lemma tile_grid_first:
  assumes "0 < w" and "0 < h"
  shows "\<exists>tiles. tile_grid w h = (0, 0) # tiles"
proof -
  define nc where "nc = (w + 4096 - 1) div 4096 - 1"
  define nr where "nr = (h + 4096 - 1) div 4096 - 1"
  have "0 \<le> nc" using assms(1) by (simp add: nc_def)
  then have c: "[0 .. nc] = 0 # [1 .. nc]" using upto_rec1 [of 0 nc] by simp
  have "0 \<le> nr" using assms(2) by (simp add: nr_def)
  then have r: "[0 .. nr] = 0 # [1 .. nr]" using upto_rec1 [of 0 nr] by simp
  have "tile_grid w h = concat (map (\<lambda>row. map (\<lambda>col. (row, col)) [0 .. nc]) [0 .. nr])"
    by (simp add: tile_grid_def nc_def nr_def)
  then show ?thesis by (simp add: c r)
qed

text \<open>
  The first tile of a read at a level that does not exist, where the downsample is
  \<^verbatim>\<open>-1.0\<close>: its coordinate is \<^verbatim>\<open>x\<close> converted to double and back.
\<close>

lemma tile_coord_first_bad_level:
  "tile_coord x 0 (double_of_int64 (- 1)) = int64_of_double (double_of_int64 x)"
  by (simp only: tile_coord_def double_of_int64_0 double_of_int64_minus_1 dmul_zero_finite
      int64_of_double_dadd_zero)

text \<open>
  A region of at most one tile whose \<^verbatim>\<open>x\<close> and \<^verbatim>\<open>y\<close> are at most \<open>2 ^ 53\<close> in
  absolute value has its tile coordinates defined at such a level.
\<close>

lemma tile_coords_defined_one_tile:
  assumes "w \<le> 4096" and "h \<le> 4096" and "\<bar>x\<bar> \<le> 2 ^ 53" and "\<bar>y\<bar> \<le> 2 ^ 53"
  shows "tile_coords_defined x y w h (double_of_int64 (- 1))"
proof -
  have one: "row = 0 \<and> col = 0" if "(row, col) \<in> set (tile_grid w h)" for row col
    using that assms(1,2) by (auto simp: tile_grid_def)
  have cx: "tile_coord x (0 * 4096) (double_of_int64 (- 1)) \<noteq> None"
    using int64_double_roundtrip [OF assms(3)] by (simp add: tile_coord_first_bad_level)
  have cy: "tile_coord y (0 * 4096) (double_of_int64 (- 1)) \<noteq> None"
    using int64_double_roundtrip [OF assms(4)] by (simp add: tile_coord_first_bad_level)
  show ?thesis
    unfolding tile_coords_defined_def list_all_iff
    using one cx cy by fastforce
qed

text \<open>
  Claim C10. When \<^verbatim>\<open>openslide_read_region\<close> rejects the request in its validation,
  because the width or the height is negative or because the handle has more than one
  channel, it returns with the destination buffer as the caller passed it: the checks
  come before the \<^verbatim>\<open>memset\<close>.
\<close>

theorem read_region_rejected_dest_unmodified:
  assumes "w < 0 \<or> h < 0 \<or> osr_channel_count osr > 1"
  shows "\<exists>osr'. openslide_read_region ops osr dest x y level w h = Some (osr', dest)"
  using assms by (auto simp: openslide_read_region_def)

theorem read_region_rejected_dest_unmodified_witness:
  "osr_channel_count (osr_of [level_of 1 8 8] 3) > 1 \<and>
   (\<exists>osr'. openslide_read_region (backend_of True None 9) (osr_of [level_of 1 8 8] 3)
             (Some [1, 2, 3, 4]) 0 0 0 1 1 = Some (osr', Some [1, 2, 3, 4]))"
proof -
  have h: "osr_channel_count (osr_of [level_of 1 8 8] 3) > 1" by (simp add: osr_of_def)
  then have "(1::int) < 0 \<or> (1::int) < 0 \<or> osr_channel_count (osr_of [level_of 1 8 8] 3) > 1"
    by simp
  from read_region_rejected_dest_unmodified [OF this] h show ?thesis by simp
qed

text \<open>
  Claim C3, against the claim as stated. A full-color read at level 5 of a handle with
  one level: \<^verbatim>\<open>read_region_area\<close> paints only \<^verbatim>\<open>if (level_in_range(osr, level))\<close>
  and reports success otherwise, so the call returns a cleared buffer and the handle
  still has no error. The same holds for the level -1.

  The gray reader reports the level from inside its tile loop. A gray read of width 0
  at level 5 has no tile, and returns without an error. And a gray read at level 5
  whose \<^verbatim>\<open>x\<close> is \<open>2 ^ 63 - 1\<close> has no defined behaviour at all: the coordinate of its
  first tile is the double \<open>2 ^ 63\<close> converted to \<^verbatim>\<open>int64_t\<close>.
\<close>

theorem read_region_bad_level_no_error:
  "openslide_read_region (backend_of False (Some ''paint failed'') 9)
     (osr_of [level_of 1 8 8] 1) (Some [1, 2, 3, 4]) 0 0 5 1 1 =
     Some (osr_of [level_of 1 8 8] 1, Some (replicate 4 0)) \<and>
   openslide_read_region (backend_of False (Some ''paint failed'') 9)
     (osr_of [level_of 1 8 8] 1) (Some [1, 2, 3, 4]) 0 0 (- 1) 1 1 =
     Some (osr_of [level_of 1 8 8] 1, Some (replicate 4 0)) \<and>
   osr_error (osr_of [level_of 1 8 8] 1) = None \<and>
   openslide_read_region_gray8 (backend_of False (Some ''paint failed'') 9)
     (osr_of [level_of 1 8 8] 1) (Some []) 0 0 5 0 1 =
     Some (osr_of [level_of 1 8 8] 1, Some []) \<and>
   openslide_read_region_gray8 (backend_of False (Some ''paint failed'') 9)
     (osr_of [level_of 1 8 8] 1) (Some [1, 2, 3, 4]) (2 ^ 63 - 1) 0 5 4 1 = None"
  by code_simp

lemma memset0_again:
  "memset0_opt buf n = Some buf0 \<Longrightarrow> \<exists>buf1. memset0_opt buf0 n = Some buf1"
  by (auto simp: memset0_opt_def memset0_def split: option.splits if_splits)

lemma memset0_idem:
  "memset0_opt dest n = Some dest0 \<Longrightarrow> memset0_opt dest0 n = Some dest0"
  by (auto simp: memset0_opt_def memset0_def split: option.splits if_splits)

lemma memset0_room:
  assumes "0 \<le> n" and "\<forall>m. dest = Some m \<longrightarrow> nat n \<le> length m"
  shows "\<exists>dest0. memset0_opt dest n = Some dest0"
proof (cases dest)
  case None
  then show ?thesis by (simp add: memset0_opt_def)
next
  case (Some m)
  with assms show ?thesis by (simp add: memset0_opt_def memset0_def)
qed

lemma read_region_area_gray_bad_level:
  assumes "pixel_bytes = 1 \<or> pixel_bytes = 2"
    and "level > osr_level_count_all osr - 1"
  shows "read_region_area_gray ops osr buf offset stride pixel_bytes x y level w h =
           Some (False, None, openslide_propagate_error osr (Some ''invalid level''), buf)"
  using assms by (auto simp: read_region_area_gray_def Let_def)

lemma read_region_gray_paint_bad_level:
  assumes pos: "0 < w" "0 < h"
    and pb: "pixel_bytes = 1 \<or> pixel_bytes = 2"
    and lvl: "level > osr_level_count_all osr - 1"
    and cx: "int64_of_double (double_of_int64 x) = Some sx"
    and cy: "int64_of_double (double_of_int64 y) = Some sy"
    and room: "memset0_opt buf (h * stride) = Some buf0"
  shows "\<exists>osr' d. read_region_gray_paint ops osr dest is_buf_cr buf cr_fmt stride pixel_bytes
                    x y level w h = Some (osr', d) \<and> osr_error osr' \<noteq> None"
proof (cases "openslide_get_error osr \<noteq> None")
  case True
  then show ?thesis
    using room by (simp add: read_region_gray_paint_def openslide_get_error_def)
next
  case False
  have ds: "openslide_get_level_downsample_gray osr level = Some (double_of_int64 (- 1))"
    using False lvl by (simp add: openslide_get_level_downsample_gray_def)
  obtain tiles where grid: "tile_grid w h = (0, 0) # tiles"
    using tile_grid_first [OF pos] by blast
  obtain buf1 where again: "memset0_opt buf0 (h * stride) = Some buf1"
    using memset0_again [OF room] by blast
  let ?osr1 = "openslide_propagate_error osr (Some ''invalid level'')"
  have tx: "tile_coord x (0 * 4096) (double_of_int64 (- 1)) = Some sx"
    using cx by (simp add: tile_coord_first_bad_level)
  have ty: "tile_coord y (0 * 4096) (double_of_int64 (- 1)) = Some sy"
    using cy by (simp add: tile_coord_first_bad_level)
  have tiles: "read_region_gray_tiles ops cr_fmt stride pixel_bytes x y level w h
                 (double_of_int64 (- 1)) (tile_grid w h) osr buf0 =
               Some (False, openslide_propagate_error ?osr1 None, buf1)"
    unfolding grid read_region_gray_tiles.simps tx ty
    using read_region_area_gray_bad_level [OF pb lvl] again
    by (simp add: Let_def)
  have "osr_error (openslide_propagate_error ?osr1 None) \<noteq> None"
    by (rule propagate_error_keeps) (rule propagate_error_sets)
  then show ?thesis
    using False room ds tiles by (simp add: read_region_gray_paint_def)
qed

lemma length_g_try_malloc:
  "g_try_malloc ops n = Some b \<Longrightarrow> length b = nat n"
  by (auto simp: g_try_malloc_def split: if_splits)

text \<open>
  A full-color read at a level out of range: no tile is painted, and the handle is the
  one the call was given unless the cairo status check reports an error.
\<close>

lemma read_region_area_bad_level:
  assumes "\<not> level_in_range osr level"
  shows "\<exists>args. read_region_area ops osr dest offset stride x y level w h =
           (case check_cairo_status ops args of
              Some msg \<Rightarrow> Some (False, Some msg, dest)
            | None \<Rightarrow> Some (True, None, dest))"
  using assms by (auto simp: read_region_area_def Let_def)

lemma read_region_tiles_bad_level:
  assumes nr: "\<not> level_in_range osr level"
    and clear: "memset0_opt dest (w * h * 4) = Some dest"
  shows "list_all (\<lambda>(row, col). tile_coord x (col * 4096) ds \<noteq> None \<and>
                                 tile_coord y (row * 4096) ds \<noteq> None) tiles \<Longrightarrow>
         \<exists>osr'. read_region_tiles ops x y level w h ds tiles osr dest = Some (osr', dest) \<and>
           (osr' = osr \<or>
            (\<exists>args msg. check_cairo_status ops args = Some msg \<and>
                         osr' = openslide_propagate_error osr (Some msg)))"
proof (induction tiles)
  case Nil
  then show ?case by simp
next
  case (Cons tile tiles)
  obtain row col where tile: "tile = (row, col)" by (cases tile)
  from Cons.prems obtain sx sy
    where sx: "tile_coord x (col * 4096) ds = Some sx"
      and sy: "tile_coord y (row * 4096) ds = Some sy"
      and rest: "list_all (\<lambda>(row, col). tile_coord x (col * 4096) ds \<noteq> None \<and>
                                        tile_coord y (row * 4096) ds \<noteq> None) tiles"
    by (auto simp: tile)
  obtain args where area:
    "read_region_area ops osr dest (w * row * 4096 + col * 4096) (w * 4) sx sy level
       (min (w - col * 4096) 4096) (min (h - row * 4096) 4096) =
     (case check_cairo_status ops args of
        Some msg \<Rightarrow> Some (False, Some msg, dest)
      | None \<Rightarrow> Some (True, None, dest))"
    using read_region_area_bad_level [OF nr] by blast
  show ?case
  proof (cases "check_cairo_status ops args")
    case None
    then have "read_region_tiles ops x y level w h ds (tile # tiles) osr dest =
        read_region_tiles ops x y level w h ds tiles osr dest"
      using area sx sy by (simp add: tile Let_def)
    then show ?thesis using Cons.IH [OF rest] by simp
  next
    case (Some msg)
    then have "read_region_tiles ops x y level w h ds (tile # tiles) osr dest =
        Some (openslide_propagate_error osr (Some msg), dest)"
      using area sx sy clear by (simp add: tile Let_def)
    then show ?thesis using Some by blast
  qed
qed

text \<open>
  Claim C3, amended. The sticky error is set when the call returns (the message of the
  call if the handle had none, the earlier one otherwise)
  \<^item> for a full-color read with a negative width or height, or on a handle with more
    than one channel;
  \<^item> for a gray read with a negative width or height;
  \<^item> for a gray read of a region with positive width and height at a level above
    \<^verbatim>\<open>level_count_all - 1\<close>, the destination holding the region's bytes and
    \<^verbatim>\<open>x\<close> and \<^verbatim>\<open>y\<close> such that their conversion to double and back is defined.

  A level out of range is not a validation failure of a full-color read: for a region
  that passes the two checks, with the destination holding the region's bytes and the
  conversions of the tile loop defined, the call returns the destination cleared and
  the handle as it was given, unless the cairo status check reports an error, which is
  then the one propagated to the handle.
\<close>

theorem region_read_validation_sets_error:
  "(w < 0 \<or> h < 0 \<or> osr_channel_count osr > 1 \<longrightarrow>
      (\<exists>osr' d. openslide_read_region ops osr dest x y level w h = Some (osr', d) \<and>
               osr_error osr' \<noteq> None)) \<and>
   (w < 0 \<or> h < 0 \<longrightarrow>
      (\<exists>osr' d. openslide_read_region_gray ops osr dest pixel_bytes x y level w h = Some (osr', d) \<and>
               osr_error osr' \<noteq> None)) \<and>
   (0 < w \<and> 0 < h \<and> level > osr_level_count_all osr - 1 \<and>
    (\<forall>m. dest = Some m \<longrightarrow> nat (w * h * pixel_bytes) \<le> length m) \<and>
    int64_of_double (double_of_int64 x) \<noteq> None \<and>
    int64_of_double (double_of_int64 y) \<noteq> None \<longrightarrow>
      (\<exists>osr' d. openslide_read_region_gray ops osr dest pixel_bytes x y level w h = Some (osr', d) \<and>
               osr_error osr' \<noteq> None)) \<and>
   (0 \<le> w \<and> 0 \<le> h \<and> osr_channel_count osr \<le> 1 \<and> \<not> level_in_range osr level \<and>
    (\<forall>m. dest = Some m \<longrightarrow> nat (w * h * 4) \<le> length m) \<and>
    tile_coords_defined x y w h (double_of_int64 (- 1)) \<longrightarrow>
      (\<exists>osr' d. openslide_read_region ops osr dest x y level w h = Some (osr', d) \<and>
               memset0_opt dest (w * h * 4) = Some d \<and>
               (osr' = osr \<or>
                (\<exists>args msg. check_cairo_status ops args = Some msg \<and>
                             osr' = openslide_propagate_error osr (Some msg)))))"
proof (intro conjI impI)
  assume "w < 0 \<or> h < 0 \<or> osr_channel_count osr > 1"
  then have "\<exists>msg. openslide_read_region ops osr dest x y level w h =
      Some (openslide_propagate_error osr (Some msg), dest)"
    by (auto simp: openslide_read_region_def)
  then show "\<exists>osr' d. openslide_read_region ops osr dest x y level w h = Some (osr', d) \<and>
               osr_error osr' \<noteq> None"
    using propagate_error_sets by blast
next
  assume "w < 0 \<or> h < 0"
  then have "\<exists>msg. openslide_read_region_gray ops osr dest pixel_bytes x y level w h =
      Some (openslide_propagate_error osr (Some msg), dest)"
    by (auto simp: openslide_read_region_gray_def)
  then show "\<exists>osr' d. openslide_read_region_gray ops osr dest pixel_bytes x y level w h = Some (osr', d) \<and>
               osr_error osr' \<noteq> None"
    using propagate_error_sets by blast
next
  assume a: "0 < w \<and> 0 < h \<and> level > osr_level_count_all osr - 1 \<and>
    (\<forall>m. dest = Some m \<longrightarrow> nat (w * h * pixel_bytes) \<le> length m) \<and>
    int64_of_double (double_of_int64 x) \<noteq> None \<and>
    int64_of_double (double_of_int64 y) \<noteq> None"
  then have pos: "0 < w" "0 < h"
    and lvl: "level > osr_level_count_all osr - 1"
    and room: "\<forall>m. dest = Some m \<longrightarrow> nat (w * h * pixel_bytes) \<le> length m"
    by simp_all
  from a obtain sx sy where cx: "int64_of_double (double_of_int64 x) = Some sx"
    and cy: "int64_of_double (double_of_int64 y) = Some sy"
    by auto
  have dims: "(w < 0 \<or> h < 0) = False" using pos by auto
  show "\<exists>osr' d. openslide_read_region_gray ops osr dest pixel_bytes x y level w h = Some (osr', d) \<and>
               osr_error osr' \<noteq> None"
  proof (cases "pixel_bytes = 1 \<or> pixel_bytes = 2")
    case False
    then have "openslide_read_region_gray ops osr dest pixel_bytes x y level w h =
        Some (openslide_propagate_error osr (Some ''pixel_bytes must either 1 or 2''), dest)"
      by (simp add: openslide_read_region_gray_def dims)
    then show ?thesis using propagate_error_sets by blast
  next
    case pb: True
    define cr_fmt where "cr_fmt = (if pixel_bytes = 1 then CAIRO_FORMAT_A8 else CAIRO_FORMAT_RGB16_565)"
    define stride where "stride = cairo_format_stride_for_width cr_fmt w"
    have valid: "(pixel_bytes \<noteq> 1 \<and> pixel_bytes \<noteq> 2) = False" using pb by auto
    show ?thesis
    proof (cases "stride = w * pixel_bytes")
      case True
      have eq: "openslide_read_region_gray ops osr dest pixel_bytes x y level w h =
          read_region_gray_paint ops osr dest False dest cr_fmt stride pixel_bytes x y level w h"
        using True by (simp add: openslide_read_region_gray_def dims valid Let_def cr_fmt_def stride_def)
      have hs: "h * stride = w * h * pixel_bytes" using True by (simp add: mult.commute mult.left_commute)
      have nn: "0 \<le> w * h * pixel_bytes" using pos pb by auto
      obtain buf0 where "memset0_opt dest (h * stride) = Some buf0"
        using memset0_room [OF nn room] unfolding hs by blast
      from read_region_gray_paint_bad_level [OF pos pb lvl cx cy this] eq show ?thesis by simp
    next
      case False
      show ?thesis
      proof (cases "g_try_malloc ops (h * stride)")
        case None
        then have "openslide_read_region_gray ops osr dest pixel_bytes x y level w h =
            Some (openslide_propagate_error osr
                    (Some ''Could not allocate bytes for openslide_read_region_gray()''), dest)"
          using False by (simp add: openslide_read_region_gray_def dims valid Let_def cr_fmt_def stride_def)
        then show ?thesis using propagate_error_sets by blast
      next
        case (Some b)
        then have eq: "openslide_read_region_gray ops osr dest pixel_bytes x y level w h =
            read_region_gray_paint ops osr dest True (Some b) cr_fmt stride pixel_bytes x y level w h"
          using False by (simp add: openslide_read_region_gray_def dims valid Let_def cr_fmt_def stride_def)
        have "length b = nat (h * stride)" using Some by (rule length_g_try_malloc)
        moreover have "0 < h * stride" using Some by (auto simp: g_try_malloc_def split: if_splits)
        ultimately have "\<exists>buf0. memset0_opt (Some b) (h * stride) = Some buf0"
          by (simp add: memset0_opt_def memset0_def)
        then obtain buf0 where "memset0_opt (Some b) (h * stride) = Some buf0" by blast
        from read_region_gray_paint_bad_level [OF pos pb lvl cx cy this] eq show ?thesis by simp
      qed
    qed
  qed
next
  assume a: "0 \<le> w \<and> 0 \<le> h \<and> osr_channel_count osr \<le> 1 \<and> \<not> level_in_range osr level \<and>
    (\<forall>m. dest = Some m \<longrightarrow> nat (w * h * 4) \<le> length m) \<and>
    tile_coords_defined x y w h (double_of_int64 (- 1))"
  then have valid: "(w < 0 \<or> h < 0) = False" "(osr_channel_count osr > 1) = False"
    and nr: "\<not> level_in_range osr level"
    and room: "\<forall>m. dest = Some m \<longrightarrow> nat (w * h * 4) \<le> length m"
    and coords: "list_all (\<lambda>(row, col). tile_coord x (col * 4096) (double_of_int64 (- 1)) \<noteq> None \<and>
                                         tile_coord y (row * 4096) (double_of_int64 (- 1)) \<noteq> None)
                   (tile_grid w h)"
    by (auto simp: tile_coords_defined_def)
  have nn: "0 \<le> w * h * 4" using a by simp
  obtain dest0 where m: "memset0_opt dest (w * h * 4) = Some dest0"
    using memset0_room [OF nn room] by blast
  have again: "memset0_opt dest0 (w * h * 4) = Some dest0"
    using m by (rule memset0_idem)
  show "\<exists>osr' d. openslide_read_region ops osr dest x y level w h = Some (osr', d) \<and>
               memset0_opt dest (w * h * 4) = Some d \<and>
               (osr' = osr \<or>
                (\<exists>args msg. check_cairo_status ops args = Some msg \<and>
                             osr' = openslide_propagate_error osr (Some msg)))"
  proof (cases "openslide_get_error osr \<noteq> None")
    case True
    then have "openslide_read_region ops osr dest x y level w h = Some (osr, dest0)"
      using m by (simp add: openslide_read_region_def valid)
    then show ?thesis using m by simp
  next
    case False
    have ds: "openslide_get_level_downsample osr level = Some (double_of_int64 (- 1))"
      using nr by (simp add: openslide_get_level_downsample_def)
    have "openslide_read_region ops osr dest x y level w h =
        read_region_tiles ops x y level w h (double_of_int64 (- 1)) (tile_grid w h) osr dest0"
      using False m ds by (simp add: openslide_read_region_def valid)
    then show ?thesis
      using read_region_tiles_bad_level [OF nr again coords] m by auto
  qed
qed

theorem region_read_validation_sets_error_witness:
  "osr_channel_count (osr_of [level_of 1 8 8] 2) > 1 \<and>
   (\<exists>osr' d. openslide_read_region (backend_of True None 9) (osr_of [level_of 1 8 8] 2)
               (Some [1, 2, 3, 4]) 0 0 0 1 1 = Some (osr', d) \<and> osr_error osr' \<noteq> None) \<and>
   (\<exists>osr' d. openslide_read_region_gray (backend_of True None 9) (osr_of [level_of 1 8 8] 2)
               (Some [1, 2, 3, 4]) 1 0 0 0 (- 1) 1 = Some (osr', d) \<and> osr_error osr' \<noteq> None) \<and>
   int64_of_double (double_of_int64 0) \<noteq> None \<and>
   (\<exists>osr' d. openslide_read_region_gray (backend_of True None 9) (osr_of [level_of 1 8 8] 2)
               (Some [1, 2, 3, 4]) 1 0 0 7 4 1 = Some (osr', d) \<and> osr_error osr' \<noteq> None) \<and>
   \<not> level_in_range (osr_of [level_of 1 8 8] 1) 7 \<and>
   tile_coords_defined 0 0 1 1 (double_of_int64 (- 1)) \<and>
   (\<exists>osr' d. openslide_read_region (backend_of True None 9) (osr_of [level_of 1 8 8] 1)
               (Some [1, 2, 3, 4]) 0 0 7 1 1 = Some (osr', d) \<and>
             memset0_opt (Some [1, 2, 3, 4]) (1 * 1 * 4) = Some d \<and>
             (osr' = osr_of [level_of 1 8 8] 1 \<or>
              (\<exists>args msg. check_cairo_status (backend_of True None 9) args = Some msg \<and>
                 osr' = openslide_propagate_error (osr_of [level_of 1 8 8] 1) (Some msg))))"
proof -
  let ?ops = "backend_of True None 9"
  let ?osr = "osr_of [level_of 1 8 8] 2"
  let ?osr1 = "osr_of [level_of 1 8 8] 1"
  let ?dest = "Some [1, 2, 3, 4 :: 8 word]"
  have h1: "(1::int) < 0 \<or> (1::int) < 0 \<or> osr_channel_count ?osr > 1" by (simp add: osr_of_def)
  have h2: "(- 1::int) < 0 \<or> (1::int) < 0" by simp
  have c0: "int64_of_double (double_of_int64 0) \<noteq> None" by code_simp
  have h3: "(0::int) < 4 \<and> (0::int) < 1 \<and>
      7 > osr_level_count_all ?osr - 1 \<and>
      (\<forall>m. ?dest = Some m \<longrightarrow> nat (4 * 1 * 1) \<le> length m) \<and>
      int64_of_double (double_of_int64 0) \<noteq> None \<and>
      int64_of_double (double_of_int64 0) \<noteq> None"
    using c0 by (simp add: osr_of_def)
  have nr: "\<not> level_in_range ?osr1 7" by (simp add: level_in_range_def osr_of_def)
  have td: "tile_coords_defined 0 0 1 1 (double_of_int64 (- 1))" by code_simp
  have h4: "(0::int) \<le> 1 \<and> (0::int) \<le> 1 \<and> osr_channel_count ?osr1 \<le> 1 \<and>
      \<not> level_in_range ?osr1 7 \<and>
      (\<forall>m. ?dest = Some m \<longrightarrow> nat (1 * 1 * 4) \<le> length m) \<and>
      tile_coords_defined 0 0 1 1 (double_of_int64 (- 1))"
    using nr td by (simp add: osr_of_def)
  have a: "\<exists>osr' d. openslide_read_region ?ops ?osr ?dest 0 0 0 1 1 = Some (osr', d) \<and>
      osr_error osr' \<noteq> None"
    using region_read_validation_sets_error
            [where w = 1 and h = 1 and osr = ?osr and ops = ?ops and dest = ?dest and x = 0
               and y = 0 and level = 0] h1 by blast
  have b: "\<exists>osr' d. openslide_read_region_gray ?ops ?osr ?dest 1 0 0 0 (- 1) 1 = Some (osr', d) \<and>
      osr_error osr' \<noteq> None"
    using region_read_validation_sets_error
            [where w = "- 1" and h = 1 and osr = ?osr and ops = ?ops and dest = ?dest and x = 0
               and y = 0 and level = 0 and pixel_bytes = 1] h2 by blast
  have c: "\<exists>osr' d. openslide_read_region_gray ?ops ?osr ?dest 1 0 0 7 4 1 = Some (osr', d) \<and>
      osr_error osr' \<noteq> None"
    using region_read_validation_sets_error
            [where w = 4 and h = 1 and osr = ?osr and ops = ?ops and dest = ?dest and x = 0
               and y = 0 and level = 7 and pixel_bytes = 1] h3 by blast
  have d: "\<exists>osr' d. openslide_read_region ?ops ?osr1 ?dest 0 0 7 1 1 = Some (osr', d) \<and>
      memset0_opt ?dest (1 * 1 * 4) = Some d \<and>
      (osr' = ?osr1 \<or>
       (\<exists>args msg. check_cairo_status ?ops args = Some msg \<and>
           osr' = openslide_propagate_error ?osr1 (Some msg)))"
    using region_read_validation_sets_error
            [where w = 1 and h = 1 and osr = ?osr1 and ops = ?ops and dest = ?dest and x = 0
               and y = 0 and level = 7] h4 by blast
  from h1 a b c0 c nr td d show ?thesis by simp
qed

text \<open>
  Claim C2, at an input where the code departs from it. A gray read of 3 by 1 pixels
  at one byte per pixel: cairo's stride for the width 3 is 4, not 3, so the tiles are
  painted into the temporary block \<^verbatim>\<open>buf_cr\<close>. The backend's paint fails. The block
  is cleared before the paint and after the failure, the caller's destination never:
  it holds the bytes 7, 7, 7 it held before the call, and the handle has the error.
  With the width 4 the stride is tight, the destination is the working buffer, and the
  same failure leaves it cleared, as it does in a full-color read of one pixel.
\<close>

theorem gray_read_failure_leaves_dest_stale:
  "openslide_read_region_gray8 (backend_of False (Some ''decode failed'') 9)
     (osr_of [level_of 1 8 8] 1) (Some [7, 7, 7]) 0 0 0 3 1 =
     Some ((osr_of [level_of 1 8 8] 1)\<lparr>osr_error := Some ''decode failed''\<rparr>, Some [7, 7, 7]) \<and>
   openslide_read_region_gray8 (backend_of False (Some ''decode failed'') 9)
     (osr_of [level_of 1 8 8] 1) (Some [7, 7, 7, 7]) 0 0 0 4 1 =
     Some ((osr_of [level_of 1 8 8] 1)\<lparr>osr_error := Some ''decode failed''\<rparr>,
           Some (replicate 4 0)) \<and>
   openslide_read_region (backend_of False (Some ''decode failed'') 9)
     (osr_of [level_of 1 8 8] 1) (Some [7, 7, 7, 7]) 0 0 0 1 1 =
     Some ((osr_of [level_of 1 8 8] 1)\<lparr>osr_error := Some ''decode failed''\<rparr>,
           Some (replicate 4 0))"
  by code_simp

text \<open>
  The full-color path, for comparison: when \<^verbatim>\<open>openslide_read_region\<close> has passed
  its validation and returns with an error on the handle, the first \<open>w * h * 4\<close>
  bytes of the destination are zero.
\<close>

lemma memset0_zero:
  "memset0_opt dest n = Some (Some d) \<Longrightarrow> take (nat n) d = replicate (nat n) 0"
  by (auto simp: memset0_opt_def memset0_def split: option.splits if_splits)

lemma read_region_tiles_failure_zeroed:
  assumes "read_region_tiles ops x y level w h ds tiles osr dest = Some (osr', Some d)"
    and "osr_error osr = None" and "osr_error osr' \<noteq> None"
  shows "take (nat (w * h * 4)) d = replicate (nat (w * h * 4)) 0"
  using assms
proof (induction tiles arbitrary: dest)
  case Nil
  then show ?case by simp
next
  case (Cons tile tiles)
  obtain row col where tile: "tile = (row, col)" by (cases tile)
  from Cons.prems(1) obtain sx where sx: "tile_coord x (col * 4096) ds = Some sx"
    by (cases "tile_coord x (col * 4096) ds") (auto simp: tile)
  from Cons.prems(1) obtain sy where sy: "tile_coord y (row * 4096) ds = Some sy"
    by (cases "tile_coord y (row * 4096) ds") (auto simp: tile sx)
  let ?area = "read_region_area ops osr dest (w * row * 4096 + col * 4096) (w * 4)
      sx sy level (min (w - col * 4096) 4096) (min (h - row * 4096) 4096)"
  from Cons.prems(1) obtain ok tmp_err dest1 where area: "?area = Some (ok, tmp_err, dest1)"
    by (cases ?area) (auto simp: tile sx sy Let_def)
  show ?case
  proof (cases ok)
    case True
    then have "read_region_tiles ops x y level w h ds tiles osr dest1 = Some (osr', Some d)"
      using Cons.prems(1) area by (simp add: tile sx sy Let_def)
    then show ?thesis using Cons.IH Cons.prems(2,3) by blast
  next
    case False
    then have "memset0_opt dest1 (w * h * 4) = Some (Some d)"
      using Cons.prems(1) area by (auto simp: tile sx sy Let_def split: option.splits)
    then show ?thesis by (rule memset0_zero)
  qed
qed

lemma read_region_failure_zeroed:
  assumes "0 \<le> w" and "0 \<le> h" and "osr_channel_count osr \<le> 1"
    and "openslide_read_region ops osr dest x y level w h = Some (osr', Some d)"
    and "osr_error osr' \<noteq> None"
  shows "take (nat (w * h * 4)) d = replicate (nat (w * h * 4)) 0"
proof -
  have valid: "(w < 0 \<or> h < 0) = False" "(osr_channel_count osr > 1) = False"
    using assms(1-3) by auto
  obtain dest0 where m: "memset0_opt dest (w * h * 4) = Some dest0"
    using assms(4) by (cases "memset0_opt dest (w * h * 4)") (simp_all add: openslide_read_region_def valid)
  show ?thesis
  proof (cases "openslide_get_error osr \<noteq> None")
    case True
    then have "dest0 = Some d"
      using assms(4) m by (simp add: openslide_read_region_def valid)
    with m show ?thesis using memset0_zero by blast
  next
    case False
    then obtain ds where "read_region_tiles ops x y level w h ds (tile_grid w h) osr dest0 =
        Some (osr', Some d)"
      using assms(4) m
      by (cases "openslide_get_level_downsample osr level")
         (simp_all add: openslide_read_region_def valid)
    moreover have "osr_error osr = None" using False by (simp add: openslide_get_error_def)
    ultimately show ?thesis using assms(5) by (rule read_region_tiles_failure_zeroed)
  qed
qed

section \<open>Properties of the JPEG XR codec adapter\<close>

text \<open>
  Claim C8, at an input where the code departs from it. The converter's \<^verbatim>\<open>Copy\<close>
  fails with \<^verbatim>\<open>WMP_errFail\<close>, the first entry of the table. \<^verbatim>\<open>print_err\<close> never
  compares the first entry's \<^verbatim>\<open>id\<close>, since its loop advances the pointer before the
  comparison: the function returns false and \<^verbatim>\<open>*err\<close> is still \<^verbatim>\<open>NULL\<close>. With the
  second entry, \<^verbatim>\<open>WMP_errNotYetImplemented\<close>, the message is set.
\<close>

theorem jxr_errFail_has_no_message:
  "print_err WMP_errFail None = Some None \<and>
   openslide_jxr_decode_buf (codec_copy_status WMP_errFail) [7] 1 None = Some (False, None, [0]) \<and>
   openslide_jxr_decode_buf (codec_copy_status WMP_errNotYetImplemented) [7] 1 None =
     Some (False, Some ''JXR decode error: WMP_errNotYetImplemented'', [0])"
  by (simp add: print_err_def msgs_def openslide_jxr_decode_buf_def jxr_cleanup_def
      codec_copy_status_def g_set_error_def
      WMP_errFail_def WMP_errNotYetImplemented_def WMP_errAbstractMethod_def
      WMP_errOutOfMemory_def WMP_errFileIO_def WMP_errBufferOverflow_def
      WMP_errInvalidParameter_def WMP_errInvalidArgument_def WMP_errUnsupportedFormat_def
      WMP_errIncorrectCodecVersion_def WMP_errIndexNotFound_def WMP_errOutOfSequence_def
      WMP_errNotInitialized_def WMP_errMustBeMultipleOf16LinesUntilLastCall_def
      WMP_errPlanarAlphaBandedEncRequiresTempFile_def WMP_errAlphaModeCannotBeTranscoded_def
      WMP_errIncorrectCodecSubVersion_def)

text \<open>
  Every other status of the table is translated, and a negative status that the table
  does not list is not.
\<close>

lemma print_err_listed:
  "jerr \<in> {WMP_errNotYetImplemented, WMP_errAbstractMethod, WMP_errOutOfMemory,
           WMP_errFileIO, WMP_errBufferOverflow, WMP_errInvalidParameter,
           WMP_errInvalidArgument, WMP_errUnsupportedFormat, WMP_errIncorrectCodecVersion,
           WMP_errIndexNotFound, WMP_errOutOfSequence, WMP_errNotInitialized,
           WMP_errMustBeMultipleOf16LinesUntilLastCall,
           WMP_errPlanarAlphaBandedEncRequiresTempFile, WMP_errAlphaModeCannotBeTranscoded,
           WMP_errIncorrectCodecSubVersion} \<Longrightarrow>
   \<exists>msg. print_err jerr None = Some (Some (''JXR decode error: '' @ msg)) \<and> msg \<noteq> []"
  by (auto simp: print_err_def msgs_def g_set_error_def
      WMP_errFail_def WMP_errNotYetImplemented_def WMP_errAbstractMethod_def
      WMP_errOutOfMemory_def WMP_errFileIO_def WMP_errBufferOverflow_def
      WMP_errInvalidParameter_def WMP_errInvalidArgument_def WMP_errUnsupportedFormat_def
      WMP_errIncorrectCodecVersion_def WMP_errIndexNotFound_def WMP_errOutOfSequence_def
      WMP_errNotInitialized_def WMP_errMustBeMultipleOf16LinesUntilLastCall_def
      WMP_errPlanarAlphaBandedEncRequiresTempFile_def WMP_errAlphaModeCannotBeTranscoded_def
      WMP_errIncorrectCodecSubVersion_def)

lemma print_err_unlisted:
  "print_err (- 4) None = Some None"
  by (simp add: print_err_def msgs_def g_set_error_def
      WMP_errFail_def WMP_errNotYetImplemented_def WMP_errAbstractMethod_def
      WMP_errOutOfMemory_def WMP_errFileIO_def WMP_errBufferOverflow_def
      WMP_errInvalidParameter_def WMP_errInvalidArgument_def WMP_errUnsupportedFormat_def
      WMP_errIncorrectCodecVersion_def WMP_errIndexNotFound_def WMP_errOutOfSequence_def
      WMP_errNotInitialized_def WMP_errMustBeMultipleOf16LinesUntilLastCall_def
      WMP_errPlanarAlphaBandedEncRequiresTempFile_def WMP_errAlphaModeCannotBeTranscoded_def
      WMP_errIncorrectCodecSubVersion_def)

section \<open>Properties of the pixel kernels\<close>

subsection \<open>Byte-plane restore\<close>

text \<open>
  The scalar loop inside the buffers: it leaves the bytes before \<open>p\<close>, writes the
  pairs of a byte of the low plane and a byte of the high plane, one pair after the
  other, and leaves the bytes behind them.
\<close>

lemma load_bytes_in:
  "off + n \<le> length m \<Longrightarrow> load_bytes m off n = Some (take n (drop off m))"
  by (simp add: load_bytes_def)

lemma store_bytes_in:
  "off + length v \<le> length m \<Longrightarrow>
   store_bytes m off v = Some (take off m @ v @ drop (off + length v) m)"
  by (simp add: store_bytes_def)

lemma take1_drop: "i < length m \<Longrightarrow> take (Suc 0) (drop i m) = [m ! i]"
  by (simp add: take_Suc hd_drop_conv_nth)

lemma restore_scalar_loop_spec:
  "slo + n \<le> length src \<Longrightarrow> shi + n \<le> length src \<Longrightarrow> p + 2 * n \<le> length dst \<Longrightarrow>
   restore_scalar_loop n src slo shi p dst =
     Some (take p dst @
           concat (map (\<lambda>i. [src ! (slo + i), src ! (shi + i)]) [0 ..< n]) @
           drop (p + 2 * n) dst)"
proof (induction n arbitrary: slo shi p dst)
  case 0
  then show ?case by simp
next
  case (Suc n)
  let ?a = "src ! slo" and ?b = "src ! shi"
  have la: "load_bytes src slo 1 = Some [?a]"
    using Suc.prems(1) by (simp add: load_bytes_def take1_drop)
  have lb: "load_bytes src shi 1 = Some [?b]"
    using Suc.prems(2) by (simp add: load_bytes_def take1_drop)
  define dst1 where "dst1 = take p dst @ [?a] @ drop (p + 1) dst"
  define dst2 where "dst2 = take (p + 1) dst1 @ [?b] @ drop (p + 2) dst1"
  have s1: "store_bytes dst p [?a] = Some dst1"
    using Suc.prems(3) by (simp add: store_bytes_def dst1_def)
  have len1: "length dst1 = length dst" using Suc.prems(3) by (simp add: dst1_def)
  have s2: "store_bytes dst1 (p + 1) [?b] = Some dst2"
    using Suc.prems(3) len1 by (simp add: store_bytes_def dst2_def)
  have len2: "length dst2 = length dst" using Suc.prems(3) len1 by (simp add: dst2_def)
  have d2: "dst2 = take p dst @ [?a, ?b] @ drop (p + 2) dst"
    using Suc.prems(3) by (simp add: dst2_def dst1_def)
  have step: "restore_scalar_loop (Suc n) src slo shi p dst =
      restore_scalar_loop n src (slo + 1) (shi + 1) (p + 2) dst2"
    by (simp only: restore_scalar_loop.simps la s1 lb s2 option.simps)
  have ih: "restore_scalar_loop n src (slo + 1) (shi + 1) (p + 2) dst2 =
      Some (take (p + 2) dst2 @
            concat (map (\<lambda>i. [src ! (slo + 1 + i), src ! (shi + 1 + i)]) [0 ..< n]) @
            drop (p + 2 + 2 * n) dst2)"
    using Suc.prems len2 by (intro Suc.IH) simp_all
  have t: "take (p + 2) dst2 = take p dst @ [?a, ?b]"
    using Suc.prems(3) by (simp add: d2)
  have dr: "drop (p + 2 + 2 * n) dst2 = drop (p + 2 * Suc n) dst"
    using Suc.prems(3) by (simp add: d2 add.commute)
  have m: "concat (map (\<lambda>i. [src ! (slo + i), src ! (shi + i)]) [0 ..< Suc n]) =
      [?a, ?b] @ concat (map (\<lambda>i. [src ! (slo + 1 + i), src ! (shi + 1 + i)]) [0 ..< n])"
    by (simp add: upt_conv_Cons map_Suc_upt [symmetric] comp_def del: upt_Suc)
  show ?case by (simp only: step ih t dr m append_assoc)
qed

lemma interleaved_pairs:
  "length xs = 2 * h \<Longrightarrow> concat (map (\<lambda>i. [xs ! (2 * i), xs ! Suc (2 * i)]) [0 ..< h]) = xs"
proof (induction h arbitrary: xs)
  case 0
  then show ?case by simp
next
  case (Suc h)
  let ?ys = "take (2 * h) xs"
  have len: "length ?ys = 2 * h" using Suc.prems by simp
  have same: "map (\<lambda>i. [xs ! (2 * i), xs ! Suc (2 * i)]) [0 ..< h] =
      map (\<lambda>i. [?ys ! (2 * i), ?ys ! Suc (2 * i)]) [0 ..< h]"
    by (rule map_cong) simp_all
  have "concat (map (\<lambda>i. [xs ! (2 * i), xs ! Suc (2 * i)]) [0 ..< h]) = ?ys"
    using Suc.IH [OF len] by (simp only: same)
  then have "concat (map (\<lambda>i. [xs ! (2 * i), xs ! Suc (2 * i)]) [0 ..< Suc h]) =
      ?ys @ [xs ! (2 * h), xs ! Suc (2 * h)]"
    by simp
  also have "\<dots> = xs"
  proof -
    have a: "take (Suc (2 * h)) xs = ?ys @ [xs ! (2 * h)]"
      by (rule take_Suc_conv_app_nth) (use Suc.prems in simp)
    have b: "take (Suc (Suc (2 * h))) xs = take (Suc (2 * h)) xs @ [xs ! Suc (2 * h)]"
      by (rule take_Suc_conv_app_nth) (use Suc.prems in simp)
    have c: "take (Suc (Suc (2 * h))) xs = xs" using Suc.prems by simp
    from a b c show ?thesis by (metis append_Cons append_Nil append_assoc)
  qed
  finally show ?case .
qed

lemma split_planes_nth:
  assumes "length xs = 2 * h" and "i < h"
  shows "split_planes xs ! i = xs ! (2 * i)" and "split_planes xs ! (h + i) = xs ! Suc (2 * i)"
  using assms by (simp_all add: split_planes_def nth_append)

lemma length_split_planes: "length xs = 2 * h \<Longrightarrow> length (split_planes xs) = 2 * h"
  by (simp add: split_planes_def)

lemma split_planes_pairs:
  assumes "length xs = 2 * h"
  shows "concat (map (\<lambda>i. [split_planes xs ! (0 + i), split_planes xs ! (h + i)]) [0 ..< h]) = xs"
proof -
  have "map (\<lambda>i. [split_planes xs ! (0 + i), split_planes xs ! (h + i)]) [0 ..< h] =
      map (\<lambda>i. [xs ! (2 * i), xs ! Suc (2 * i)]) [0 ..< h]"
    by (rule map_cong) (simp_all add: split_planes_nth [OF assms])
  then show ?thesis using interleaved_pairs [OF assms] by (simp only:)
qed

lemma restore_generic_split:
  assumes len: "length xs = 2 * h" and small: "length xs < 2 ^ 64" and dst: "length dst = length xs"
  shows "restore_czi_zstd1_generic (split_planes xs) (of_nat (length xs)) dst = Some xs"
proof -
  have u: "unat (of_nat (length xs) :: 64 word) = length xs"
    using small by (simp add: unat_of_nat)
  have half: "unat ((of_nat (length xs) :: 64 word) div 2) = h"
    using u len by (simp add: unat_div)
  have "restore_scalar_loop h (split_planes xs) 0 h 0 dst =
      Some (take 0 dst @
            concat (map (\<lambda>i. [split_planes xs ! (0 + i), split_planes xs ! (h + i)]) [0 ..< h]) @
            drop (0 + 2 * h) dst)"
    using len dst by (intro restore_scalar_loop_spec) (simp_all add: length_split_planes)
  then have "restore_scalar_loop h (split_planes xs) 0 h 0 dst = Some xs"
    using split_planes_pairs [OF len] dst len by simp
  then show ?thesis by (simp add: restore_czi_zstd1_generic_def Let_def half)
qed

text \<open>
  The vector loops of the restore against the scalar loop: a scalar loop of \<open>a + b\<close>
  iterations is one of \<open>a\<close> followed by one of \<open>b\<close>, and a vector step inside the
  buffers does what its 16 (or 32) scalar iterations do.
\<close>

lemma restore_scalar_loop_add:
  "restore_scalar_loop (a + b) src slo shi p dst =
     (case restore_scalar_loop a src slo shi p dst of
        None \<Rightarrow> None
      | Some dst' \<Rightarrow> restore_scalar_loop b src (slo + a) (shi + a) (p + 2 * a) dst')"
proof (induction a arbitrary: slo shi p dst)
  case 0
  then show ?case by simp
next
  case (Suc a)
  show ?case
    by (simp add: Suc.IH split: option.splits)
qed

lemma pairs_of_blocks:
  assumes "slo + k \<le> length src" and "shi + k \<le> length src"
  shows "map (\<lambda>i. [take k (drop slo src) ! i, take k (drop shi src) ! i]) [0 ..< k] =
         map (\<lambda>i. [src ! (slo + i), src ! (shi + i)]) [0 ..< k]"
  using assms by (intro map_cong) simp_all

lemma unpack_lo_hi:
  "mm_unpacklo_epi8 a b @ mm_unpackhi_epi8 a b = concat (map (\<lambda>i. [a ! i, b ! i]) [0 ..< 16])"
proof -
  have "[0 ..< 16] = [0 ..< 8] @ [8 ..< (16::nat)]"
    using upt_add_eq_append [of 0 8 8] by simp
  then show ?thesis
    by (simp only: mm_unpacklo_epi8_def mm_unpackhi_epi8_def map_append concat_append)
qed

lemma store_two_blocks:
  assumes "r = p + length u" and "q = r + length v" and "q \<le> length dst"
  shows "\<exists>dst1. store_bytes dst p u = Some dst1 \<and>
           store_bytes dst1 r v = Some (take p dst @ (u @ v) @ drop q dst)"
proof -
  define dst1 where "dst1 = take p dst @ u @ drop r dst"
  have s1: "store_bytes dst p u = Some dst1"
    using assms by (simp add: store_bytes_def dst1_def)
  have len1: "length dst1 = length dst" using assms by (simp add: dst1_def)
  have t: "take r dst1 = take p dst @ u"
    using assms by (simp add: dst1_def)
  have d: "drop q dst1 = drop q dst"
    using assms by (simp add: dst1_def add.commute add.left_commute)
  have "store_bytes dst1 r v = Some (take r dst1 @ v @ drop q dst1)"
    using assms len1 by (simp add: store_bytes_def)
  then show ?thesis using s1 t d by simp
qed

lemma length_pairs: "length (concat (map (\<lambda>i. [f i, g i]) [a ..< b])) = 2 * (b - a)"
  by (simp add: length_concat comp_def sum_list_triv)

lemma length_unpacklo: "length (mm_unpacklo_epi8 a b) = 16"
  by (simp add: mm_unpacklo_epi8_def length_pairs)

lemma length_unpackhi: "length (mm_unpackhi_epi8 a b) = 16"
  by (simp add: mm_unpackhi_epi8_def length_pairs)

lemma restore_sse3_step:
  assumes "slo + 16 \<le> length src" and "shi + 16 \<le> length src" and "p + 32 \<le> length dst"
  shows "restore_sse3_loop (Suc n) src slo shi p dst =
     (case restore_scalar_loop 16 src slo shi p dst of
        None \<Rightarrow> None
      | Some dst' \<Rightarrow> restore_sse3_loop n src (slo + 16) (shi + 16) (p + 32) dst')"
proof -
  let ?vlo = "take 16 (drop slo src)" and ?vhi = "take 16 (drop shi src)"
  let ?out = "take p dst @ (mm_unpacklo_epi8 ?vlo ?vhi @ mm_unpackhi_epi8 ?vlo ?vhi) @ drop (p + 32) dst"
  have l1: "mm_loadu_si128 src slo = Some ?vlo"
    using assms(1) by (simp add: mm_loadu_si128_def load_bytes_def)
  have l2: "mm_loadu_si128 src shi = Some ?vhi"
    using assms(2) by (simp add: mm_loadu_si128_def load_bytes_def)
  have "\<exists>dst1. store_bytes dst p (mm_unpacklo_epi8 ?vlo ?vhi) = Some dst1 \<and>
      store_bytes dst1 (p + 16) (mm_unpackhi_epi8 ?vlo ?vhi) = Some ?out"
    using assms(3) by (intro store_two_blocks) (simp_all add: length_unpacklo length_unpackhi)
  then obtain dst1 where s1: "mm_storeu dst p (mm_unpacklo_epi8 ?vlo ?vhi) = Some dst1"
    and s2: "mm_storeu dst1 (p + 16) (mm_unpackhi_epi8 ?vlo ?vhi) = Some ?out"
    unfolding mm_storeu_def by blast
  have vec: "restore_sse3_loop (Suc n) src slo shi p dst =
      restore_sse3_loop n src (slo + 16) (shi + 16) (p + 32) ?out"
    by (simp only: restore_sse3_loop.simps l1 l2 s1 s2 option.simps)
  have "restore_scalar_loop 16 src slo shi p dst =
      Some (take p dst @ concat (map (\<lambda>i. [src ! (slo + i), src ! (shi + i)]) [0 ..< 16]) @
            drop (p + 2 * 16) dst)"
    using assms by (intro restore_scalar_loop_spec) simp_all
  also have "concat (map (\<lambda>i. [src ! (slo + i), src ! (shi + i)]) [0 ..< 16]) =
      mm_unpacklo_epi8 ?vlo ?vhi @ mm_unpackhi_epi8 ?vlo ?vhi"
    using pairs_of_blocks [OF assms(1,2)] by (simp only: unpack_lo_hi)
  finally have "restore_scalar_loop 16 src slo shi p dst = Some ?out" by simp
  with vec show ?thesis by simp
qed

lemma restore_sse3_loop_scalar:
  "slo + 16 * n \<le> length src \<Longrightarrow> shi + 16 * n \<le> length src \<Longrightarrow> p + 32 * n \<le> length dst \<Longrightarrow>
   restore_sse3_loop n src slo shi p dst = restore_scalar_loop (16 * n) src slo shi p dst"
proof (induction n arbitrary: slo shi p dst)
  case 0
  then show ?case by simp
next
  case (Suc n)
  have b: "slo + 16 \<le> length src" "shi + 16 \<le> length src" "p + 32 \<le> length dst"
    using Suc.prems by simp_all
  have split: "16 * Suc n = 16 + 16 * n" by simp
  show ?case
  proof (cases "restore_scalar_loop 16 src slo shi p dst")
    case None
    then show ?thesis
      by (simp only: restore_sse3_step [OF b] split restore_scalar_loop_add option.simps)
  next
    case (Some dst')
    have "restore_scalar_loop 16 src slo shi p dst =
        Some (take p dst @ concat (map (\<lambda>i. [src ! (slo + i), src ! (shi + i)]) [0 ..< 16]) @
              drop (p + 2 * 16) dst)"
      using b by (intro restore_scalar_loop_spec) simp_all
    with Some have "length dst' = length dst" using b(3) by (auto simp: length_pairs)
    then have "restore_sse3_loop n src (slo + 16) (shi + 16) (p + 32) dst' =
        restore_scalar_loop (16 * n) src (slo + 16) (shi + 16) (p + 32) dst'"
      using Suc.prems by (intro Suc.IH) simp_all
    then show ?thesis
      by (simp only: restore_sse3_step [OF b] split restore_scalar_loop_add Some option.simps)
         simp
  qed
qed

text \<open>
  On buffers that hold \<^verbatim>\<open>src_len\<close> bytes, the SSE3 kernel computes what the scalar
  reference computes.
\<close>

lemma restore_sse3_generic:
  assumes "2 * (unat src_len div 2) \<le> length src" and "2 * (unat src_len div 2) \<le> length dst"
  shows "openslide_restore_czi_zstd1_sse3 src src_len dst = restore_czi_zstd1_generic src src_len dst"
proof -
  define h where "h = unat src_len div 2"
  have half: "unat (src_len div 2) = h" by (simp add: h_def unat_div)
  have mm: "unat (src_len div 2 div 16) = h div 16" by (simp add: unat_div h_def)
  have rem: "unat (src_len div 2 mod 16) = h mod 16" by (simp add: unat_mod unat_div h_def)
  have le: "16 * (h div 16) \<le> h" by simp
  have vec: "restore_sse3_loop (h div 16) src 0 h 0 dst =
      restore_scalar_loop (16 * (h div 16)) src 0 h 0 dst"
    using assms le unfolding h_def [symmetric] by (intro restore_sse3_loop_scalar) linarith+
  have "restore_scalar_loop h src 0 h 0 dst =
      restore_scalar_loop (16 * (h div 16) + h mod 16) src 0 h 0 dst"
    by simp
  also have "\<dots> = (case restore_scalar_loop (16 * (h div 16)) src 0 h 0 dst of
        None \<Rightarrow> None
      | Some dst' \<Rightarrow> restore_scalar_loop (h mod 16) src (0 + 16 * (h div 16))
            (h + 16 * (h div 16)) (0 + 2 * (16 * (h div 16))) dst')"
    by (rule restore_scalar_loop_add)
  finally have tail: "restore_czi_zstd1_generic src src_len dst =
      (case restore_scalar_loop (16 * (h div 16)) src 0 h 0 dst of
        None \<Rightarrow> None
      | Some dst' \<Rightarrow> restore_scalar_loop (h mod 16) src (0 + 16 * (h div 16))
            (h + 16 * (h div 16)) (0 + 2 * (16 * (h div 16))) dst')"
    unfolding restore_czi_zstd1_generic_def Let_def half .
  have "openslide_restore_czi_zstd1_sse3 src src_len dst =
      (case restore_scalar_loop (16 * (h div 16)) src 0 h 0 dst of
        None \<Rightarrow> None
      | Some dst' \<Rightarrow> restore_scalar_loop (h mod 16) src (h div 16 * 16)
            (h + h div 16 * 16) (h div 16 * 32) dst')"
    unfolding openslide_restore_czi_zstd1_sse3_def Let_def half mm rem vec ..
  then show ?thesis
    by (simp add: tail mult.commute split: option.splits)
qed

lemma restore_neon_loop_sse3:
  "restore_neon_loop n src slo shi p dst = restore_sse3_loop n src slo shi p dst"
proof (induction n arbitrary: slo shi p dst)
  case 0
  then show ?case by simp
next
  case (Suc n)
  have z: "vzip1q_u8 a b = mm_unpacklo_epi8 a b" "vzip2q_u8 a b = mm_unpackhi_epi8 a b" for a b
    by (simp_all add: vzip1q_u8_def vzip2q_u8_def mm_unpacklo_epi8_def mm_unpackhi_epi8_def)
  show ?case
    by (simp add: z Suc.IH split: option.splits)
qed

lemma restore_neon_generic:
  assumes "2 * (unat src_len div 2) \<le> length src" and "2 * (unat src_len div 2) \<le> length dst"
  shows "restore_czi_zstd1_neon src src_len dst = restore_czi_zstd1_generic src src_len dst"
proof -
  have "restore_czi_zstd1_neon src src_len dst = openslide_restore_czi_zstd1_sse3 src src_len dst"
    by (simp add: restore_czi_zstd1_neon_def openslide_restore_czi_zstd1_sse3_def
        restore_neon_loop_sse3)
  then show ?thesis using restore_sse3_generic [OF assms] by simp
qed

lemma select_half_0x20:
  "mm256_permute2x128_si256 a b 0x20 = take 16 a @ take 16 b"
  by (simp add: mm256_permute2x128_si256_def select_half_def)

lemma select_half_0x31:
  "mm256_permute2x128_si256 a b 0x31 = drop 16 a @ drop 16 b"
  by (simp add: mm256_permute2x128_si256_def select_half_def)

lemma avx2_restore_block:
  assumes "length vlo = 32" and "length vhi = 32"
  shows "mm256_permute2x128_si256 (mm256_unpacklo_epi8 vlo vhi) (mm256_unpackhi_epi8 vlo vhi) 0x20 @
         mm256_permute2x128_si256 (mm256_unpacklo_epi8 vlo vhi) (mm256_unpackhi_epi8 vlo vhi) 0x31 =
         concat (map (\<lambda>i. [vlo ! i, vhi ! i]) [0 ..< 32])"
proof -
  let ?a0 = "take 16 vlo" and ?b0 = "take 16 vhi" and ?a1 = "drop 16 vlo" and ?b1 = "drop 16 vhi"
  have lane0: "mm_unpacklo_epi8 ?a0 ?b0 @ mm_unpackhi_epi8 ?a0 ?b0 =
      concat (map (\<lambda>i. [vlo ! i, vhi ! i]) [0 ..< 16])"
  proof -
    have "map (\<lambda>i. [?a0 ! i, ?b0 ! i]) [0 ..< 16] = map (\<lambda>i. [vlo ! i, vhi ! i]) [0 ..< 16]"
      by (intro map_cong) simp_all
    then show ?thesis by (simp only: unpack_lo_hi)
  qed
  have lane1: "mm_unpacklo_epi8 ?a1 ?b1 @ mm_unpackhi_epi8 ?a1 ?b1 =
      concat (map (\<lambda>i. [vlo ! i, vhi ! i]) [16 ..< 32])"
  proof -
    have "map (\<lambda>i. [?a1 ! i, ?b1 ! i]) [0 ..< 16] = map (\<lambda>i. [vlo ! (i + 16), vhi ! (i + 16)]) [0 ..< 16]"
      using assms by (intro map_cong) (simp_all add: add.commute)
    also have "\<dots> = map (\<lambda>i. [vlo ! i, vhi ! i]) (map (\<lambda>i. i + 16) [0 ..< 16])"
      by (simp add: comp_def)
    also have "map (\<lambda>i. i + 16) [0 ..< 16] = [16 ..< (32::nat)]"
      using map_add_upt [of 16 16] by simp
    finally show ?thesis by (simp only: unpack_lo_hi)
  qed
  have up: "[0 ..< 32] = [0 ..< 16] @ [16 ..< (32::nat)]"
    using upt_add_eq_append [of 0 16 16] by simp
  have "mm256_permute2x128_si256 (mm256_unpacklo_epi8 vlo vhi) (mm256_unpackhi_epi8 vlo vhi) 0x20 =
      mm_unpacklo_epi8 ?a0 ?b0 @ mm_unpackhi_epi8 ?a0 ?b0"
    by (simp add: select_half_0x20 mm256_unpacklo_epi8_def mm256_unpackhi_epi8_def
        length_unpacklo length_unpackhi)
  moreover have "mm256_permute2x128_si256 (mm256_unpacklo_epi8 vlo vhi) (mm256_unpackhi_epi8 vlo vhi) 0x31 =
      mm_unpacklo_epi8 ?a1 ?b1 @ mm_unpackhi_epi8 ?a1 ?b1"
    by (simp add: select_half_0x31 mm256_unpacklo_epi8_def mm256_unpackhi_epi8_def
        length_unpacklo length_unpackhi)
  ultimately show ?thesis
    by (simp only: lane0 lane1 up map_append concat_append)
qed

lemma length_permute2x128:
  "length a = 32 \<Longrightarrow> length b = 32 \<Longrightarrow> length (mm256_permute2x128_si256 a b imm) = 32"
  by (simp add: mm256_permute2x128_si256_def select_half_def)

lemma length_unpack256:
  "length (mm256_unpacklo_epi8 a b) = 32" "length (mm256_unpackhi_epi8 a b) = 32"
  by (simp_all add: mm256_unpacklo_epi8_def mm256_unpackhi_epi8_def length_unpacklo length_unpackhi)

lemma restore_avx2_step:
  assumes "slo + 32 \<le> length src" and "shi + 32 \<le> length src" and "p + 64 \<le> length dst"
  shows "restore_avx2_loop (Suc n) src slo shi p dst =
     (case restore_scalar_loop 32 src slo shi p dst of
        None \<Rightarrow> None
      | Some dst' \<Rightarrow> restore_avx2_loop n src (slo + 32) (shi + 32) (p + 64) dst')"
proof -
  let ?vlo = "take 32 (drop slo src)" and ?vhi = "take 32 (drop shi src)"
  let ?tmp1 = "mm256_unpacklo_epi8 ?vlo ?vhi" and ?tmp2 = "mm256_unpackhi_epi8 ?vlo ?vhi"
  let ?o1 = "mm256_permute2x128_si256 ?tmp1 ?tmp2 0x20"
  let ?o2 = "mm256_permute2x128_si256 ?tmp1 ?tmp2 0x31"
  let ?out = "take p dst @ (?o1 @ ?o2) @ drop (p + 64) dst"
  have lv: "length ?vlo = 32" "length ?vhi = 32" using assms(1,2) by simp_all
  have lo: "length ?o1 = 32" "length ?o2 = 32"
    by (simp_all add: length_permute2x128 length_unpack256)
  have l1: "mm256_loadu_si256 src slo = Some ?vlo"
    using assms(1) by (simp add: mm256_loadu_si256_def load_bytes_def)
  have l2: "mm256_loadu_si256 src shi = Some ?vhi"
    using assms(2) by (simp add: mm256_loadu_si256_def load_bytes_def)
  have "\<exists>dst1. store_bytes dst p ?o1 = Some dst1 \<and> store_bytes dst1 (p + 32) ?o2 = Some ?out"
    using assms(3) lo by (intro store_two_blocks) simp_all
  then obtain dst1 where s1: "mm_storeu dst p ?o1 = Some dst1"
    and s2: "mm_storeu dst1 (p + 32) ?o2 = Some ?out"
    unfolding mm_storeu_def by blast
  have vec: "restore_avx2_loop (Suc n) src slo shi p dst =
      restore_avx2_loop n src (slo + 32) (shi + 32) (p + 64) ?out"
    by (simp only: restore_avx2_loop.simps l1 l2 s1 s2 option.simps Let_def)
  have "restore_scalar_loop 32 src slo shi p dst =
      Some (take p dst @ concat (map (\<lambda>i. [src ! (slo + i), src ! (shi + i)]) [0 ..< 32]) @
            drop (p + 2 * 32) dst)"
    using assms by (intro restore_scalar_loop_spec) simp_all
  also have "concat (map (\<lambda>i. [src ! (slo + i), src ! (shi + i)]) [0 ..< 32]) = ?o1 @ ?o2"
    using pairs_of_blocks [OF assms(1,2)] by (simp only: avx2_restore_block [OF lv])
  finally have "restore_scalar_loop 32 src slo shi p dst = Some ?out" by simp
  with vec show ?thesis by simp
qed

lemma restore_avx2_loop_scalar:
  "slo + 32 * n \<le> length src \<Longrightarrow> shi + 32 * n \<le> length src \<Longrightarrow> p + 64 * n \<le> length dst \<Longrightarrow>
   restore_avx2_loop n src slo shi p dst = restore_scalar_loop (32 * n) src slo shi p dst"
proof (induction n arbitrary: slo shi p dst)
  case 0
  then show ?case by simp
next
  case (Suc n)
  have b: "slo + 32 \<le> length src" "shi + 32 \<le> length src" "p + 64 \<le> length dst"
    using Suc.prems by simp_all
  have split: "32 * Suc n = 32 + 32 * n" by simp
  show ?case
  proof (cases "restore_scalar_loop 32 src slo shi p dst")
    case None
    then show ?thesis
      by (simp only: restore_avx2_step [OF b] split restore_scalar_loop_add option.simps)
  next
    case (Some dst')
    have "restore_scalar_loop 32 src slo shi p dst =
        Some (take p dst @ concat (map (\<lambda>i. [src ! (slo + i), src ! (shi + i)]) [0 ..< 32]) @
              drop (p + 2 * 32) dst)"
      using b by (intro restore_scalar_loop_spec) simp_all
    with Some have "length dst' = length dst" using b(3) by (auto simp: length_pairs)
    then have "restore_avx2_loop n src (slo + 32) (shi + 32) (p + 64) dst' =
        restore_scalar_loop (32 * n) src (slo + 32) (shi + 32) (p + 64) dst'"
      using Suc.prems by (intro Suc.IH) simp_all
    then show ?thesis
      by (simp only: restore_avx2_step [OF b] split restore_scalar_loop_add Some option.simps)
         simp
  qed
qed

lemma restore_avx2_generic:
  assumes "2 * (unat src_len div 2) \<le> length src" and "2 * (unat src_len div 2) \<le> length dst"
  shows "openslide_restore_czi_zstd1_avx2 src src_len dst = restore_czi_zstd1_generic src src_len dst"
proof -
  define h where "h = unat src_len div 2"
  have half: "unat (src_len div 2) = h" by (simp add: h_def unat_div)
  have mm: "unat (src_len div 2 div 32) = h div 32" by (simp add: unat_div h_def)
  have rem: "unat (src_len div 2 mod 32) = h mod 32" by (simp add: unat_mod unat_div h_def)
  have le: "32 * (h div 32) \<le> h" by simp
  have vec: "restore_avx2_loop (h div 32) src 0 h 0 dst =
      restore_scalar_loop (32 * (h div 32)) src 0 h 0 dst"
    using assms le unfolding h_def [symmetric] by (intro restore_avx2_loop_scalar) linarith+
  have "restore_scalar_loop h src 0 h 0 dst =
      restore_scalar_loop (32 * (h div 32) + h mod 32) src 0 h 0 dst"
    by simp
  also have "\<dots> = (case restore_scalar_loop (32 * (h div 32)) src 0 h 0 dst of
        None \<Rightarrow> None
      | Some dst' \<Rightarrow> restore_scalar_loop (h mod 32) src (0 + 32 * (h div 32))
            (h + 32 * (h div 32)) (0 + 2 * (32 * (h div 32))) dst')"
    by (rule restore_scalar_loop_add)
  finally have tail: "restore_czi_zstd1_generic src src_len dst =
      (case restore_scalar_loop (32 * (h div 32)) src 0 h 0 dst of
        None \<Rightarrow> None
      | Some dst' \<Rightarrow> restore_scalar_loop (h mod 32) src (0 + 32 * (h div 32))
            (h + 32 * (h div 32)) (0 + 2 * (32 * (h div 32))) dst')"
    unfolding restore_czi_zstd1_generic_def Let_def half .
  have "openslide_restore_czi_zstd1_avx2 src src_len dst =
      (case restore_scalar_loop (32 * (h div 32)) src 0 h 0 dst of
        None \<Rightarrow> None
      | Some dst' \<Rightarrow> restore_scalar_loop (h mod 32) src (h div 32 * 32)
            (h + h div 32 * 32) (h div 32 * 64) dst')"
    unfolding openslide_restore_czi_zstd1_avx2_def Let_def half mm rem vec ..
  then show ?thesis
    by (simp add: tail mult.commute split: option.splits)
qed

text \<open>
  Claim C9. For every byte buffer of even length (the empty one included) that a
  \<^verbatim>\<open>size_t\<close> can measure, splitting it into the plane of low bytes followed by the
  plane of high bytes and restoring the result into a destination of the same length
  gives the buffer back, with the scalar kernel and with its SSE3, AVX2 and NEON
  variants.
\<close>

theorem restore_inverts_split:
  assumes "even (length xs)" and "length xs < 2 ^ 64" and "length dst = length xs"
  shows "restore_czi_zstd1_generic (split_planes xs) (of_nat (length xs)) dst = Some xs \<and>
         openslide_restore_czi_zstd1_sse3 (split_planes xs) (of_nat (length xs)) dst = Some xs \<and>
         openslide_restore_czi_zstd1_avx2 (split_planes xs) (of_nat (length xs)) dst = Some xs \<and>
         restore_czi_zstd1_neon (split_planes xs) (of_nat (length xs)) dst = Some xs"
proof -
  obtain h where len: "length xs = 2 * h" using assms(1) by (auto elim: evenE)
  have g: "restore_czi_zstd1_generic (split_planes xs) (of_nat (length xs)) dst = Some xs"
    using len assms(2,3) by (rule restore_generic_split)
  have u: "unat (of_nat (length xs) :: 64 word) = length xs"
    using assms(2) by (simp add: unat_of_nat)
  have b: "2 * (unat (of_nat (length xs) :: 64 word) div 2) \<le> length (split_planes xs)"
    "2 * (unat (of_nat (length xs) :: 64 word) div 2) \<le> length dst"
    unfolding u using len assms(3) by (simp_all add: length_split_planes)
  show ?thesis
    using g restore_sse3_generic [OF b] restore_avx2_generic [OF b] restore_neon_generic [OF b]
    by simp
qed

theorem restore_inverts_split_witness:
  "even (length [1, 2, 3, 4 :: 8 word]) \<and>
   split_planes [1, 2, 3, 4] = [1, 3, 2, 4] \<and>
   restore_czi_zstd1_generic [1, 3, 2, 4] 4 [0, 0, 0, 0] = Some [1, 2, 3, 4] \<and>
   openslide_restore_czi_zstd1_sse3 [1, 3, 2, 4] 4 [0, 0, 0, 0] = Some [1, 2, 3, 4]"
proof -
  have h: "even (length [1, 2, 3, 4 :: 8 word])" "length [1, 2, 3, 4 :: 8 word] < 2 ^ 64"
    "length [0, 0, 0, 0 :: 8 word] = length [1, 2, 3, 4 :: 8 word]"
    by simp_all
  have s: "split_planes [1, 2, 3, 4] = [1, 3, 2, 4]"
    by (simp add: split_planes_def upt_rec)
  from restore_inverts_split [OF h] s h(1) show ?thesis by simp
qed

subsection \<open>The vector loops on short buffers\<close>

text \<open>
  \<^verbatim>\<open>size_t mm_len = src_len / mm_step - 1\<close>: when \<^verbatim>\<open>src_len\<close> is less than one
  vector step the quotient is 0 and the subtraction wraps, so the vector loop is
  entered. Its first load reads 16 or 32 bytes of a buffer that has fewer.
\<close>

lemma wrapped_mm_len:
  fixes src_len mm_step :: "64 word"
  assumes "src_len < mm_step"
  shows "src_len div mm_step - 1 = - 1" and "0 < unat (src_len div mm_step - 1)"
proof -
  have "src_len div mm_step = 0" using assms by (simp add: div_word_less)
  then show "src_len div mm_step - 1 = - 1" by simp
  then show "0 < unat (src_len div mm_step - 1)" by (simp add: unat_gt_0)
qed

lemma bgr24_ssse3_loop_fault:
  "0 < n \<Longrightarrow> length src < s + 16 \<Longrightarrow> bgr24_ssse3_loop n src s d dst = None"
  by (cases n) (simp_all add: mm_loadu_si128_def load_bytes_def)

lemma bgr24_avx2_loop_fault:
  "0 < n \<Longrightarrow> length src < s + 28 \<Longrightarrow> bgr24_avx2_loop n src s d dst = None"
  by (cases n) (simp_all add: mm_loadu_si128_def load_bytes_def)

lemma bgr24_neon_loop_fault:
  "0 < n \<Longrightarrow> length src < s + 16 \<Longrightarrow> bgr24_neon_loop n src s d dst = None"
  by (cases n) (simp_all add: mm_loadu_si128_def load_bytes_def)

lemma gray16_sse2_loop_fault:
  "0 < n \<Longrightarrow> length src < s + 16 \<Longrightarrow> gray16_sse2_loop n src nshift s d dst = None"
  by (cases n) (simp_all add: mm_loadu_si128_def load_bytes_def)

lemma gray16_avx2_loop_fault:
  "0 < n \<Longrightarrow> length src < s + 32 \<Longrightarrow> gray16_avx2_loop n src nshift s d dst = None"
  by (cases n) (simp_all add: mm256_loadu_si256_def load_bytes_def)

lemma bgr24_ssse3_short:
  assumes "src_len < 12" and "length src < 16"
  shows "openslide_bgr24_to_argb32_ssse3 src src_len dst = None"
  using bgr24_ssse3_loop_fault [OF wrapped_mm_len(2) [OF assms(1)], of src 0 0 dst] assms(2)
  by (simp add: openslide_bgr24_to_argb32_ssse3_def Let_def)

lemma bgr24_avx2_short:
  assumes "src_len < 24" and "length src < 28"
  shows "openslide_bgr24_to_argb32_avx2 src src_len dst = None"
  using bgr24_avx2_loop_fault [OF wrapped_mm_len(2) [OF assms(1)], of src 0 0 dst] assms(2)
  by (simp add: openslide_bgr24_to_argb32_avx2_def Let_def)

lemma bgr24_neon_short:
  assumes "src_len < 12" and "length src < 16"
  shows "bgr24_to_argb32_neon src src_len dst = None"
  using bgr24_neon_loop_fault [OF wrapped_mm_len(2) [OF assms(1)], of src 0 0 dst] assms(2)
  by (simp add: bgr24_to_argb32_neon_def Let_def)

lemma gray16_sse2_short:
  assumes "src_len < 16" and "length src < 16"
  shows "openslide_gray16_to_gray8_sse2 src src_len pixel_real_bits dst = None"
  using gray16_sse2_loop_fault [OF wrapped_mm_len(2) [OF assms(1)], of src 0 "pixel_real_bits - 8" 0 dst]
    assms(2)
  by (simp add: openslide_gray16_to_gray8_sse2_def Let_def)

lemma gray16_avx2_short:
  assumes "src_len < 32" and "length src < 32"
  shows "openslide_gray16_to_gray8_avx2 src src_len pixel_real_bits dst = None"
  using gray16_avx2_loop_fault [OF wrapped_mm_len(2) [OF assms(1)], of src 0 "pixel_real_bits - 8" 0 dst]
    assms(2)
  by (simp add: openslide_gray16_to_gray8_avx2_def Let_def)

text \<open>
  Claim C1, at inputs where the code departs from it. On the empty buffer the scalar
  kernels return without writing; on one BGR pixel the scalar kernel writes one ARGB
  pixel, and on one 16-bit gray sample with 16 real bits it writes the high byte. On
  each of these buffers, shorter than one vector step, the SSSE3, AVX2 and NEON
  variants of the color conversion and the SSE2 and AVX2 variants of the gray
  reduction compute a loop count of \<open>2\<^sup>6\<^sup>4 - 1\<close> and read outside the buffer in the
  first iteration.
\<close>

theorem vectorized_kernels_short_buffer:
  "(3 :: 64 word) div 12 - 1 = - 1 \<and>
   bgr24_to_argb32_generic [] 0 [] = Some [] \<and>
   openslide_bgr24_to_argb32_ssse3 [] 0 [] = None \<and>
   openslide_bgr24_to_argb32_avx2 [] 0 [] = None \<and>
   bgr24_to_argb32_neon [] 0 [] = None \<and>
   bgr24_to_argb32_generic [1, 2, 3] 3 [0, 0, 0, 0] = Some [1, 2, 3, 0xFF] \<and>
   openslide_bgr24_to_argb32_ssse3 [1, 2, 3] 3 [0, 0, 0, 0] = None \<and>
   openslide_bgr24_to_argb32_avx2 [1, 2, 3] 3 [0, 0, 0, 0] = None \<and>
   bgr24_to_argb32_neon [1, 2, 3] 3 [0, 0, 0, 0] = None \<and>
   gray16_to_gray8_generic [] 0 16 [] = Some [] \<and>
   openslide_gray16_to_gray8_sse2 [] 0 16 [] = None \<and>
   openslide_gray16_to_gray8_avx2 [] 0 16 [] = None \<and>
   gray16_to_gray8_generic [0x34, 0x12] 2 16 [0] = Some [0x12] \<and>
   openslide_gray16_to_gray8_sse2 [0x34, 0x12] 2 16 [0] = None \<and>
   openslide_gray16_to_gray8_avx2 [0x34, 0x12] 2 16 [0] = None"
proof -
  have w: "(3 :: 64 word) div 12 - 1 = - 1" by (rule wrapped_mm_len(1)) simp
  have g: "bgr24_to_argb32_generic [] 0 [] = Some []"
    "bgr24_to_argb32_generic [1, 2, 3] 3 [0, 0, 0, 0] = Some [1, 2, 3, 0xFF]"
    "gray16_to_gray8_generic [] 0 16 [] = Some []"
    "gray16_to_gray8_generic [0x34, 0x12] 2 16 [0] = Some [0x12]"
    by code_simp+
  have v0: "openslide_bgr24_to_argb32_ssse3 [] 0 [] = None"
    "openslide_bgr24_to_argb32_avx2 [] 0 [] = None"
    "bgr24_to_argb32_neon [] 0 [] = None"
    "openslide_gray16_to_gray8_sse2 [] 0 16 [] = None"
    "openslide_gray16_to_gray8_avx2 [] 0 16 [] = None"
    by (simp_all add: bgr24_ssse3_short bgr24_avx2_short bgr24_neon_short
        gray16_sse2_short gray16_avx2_short)
  have v1: "openslide_bgr24_to_argb32_ssse3 [1, 2, 3] 3 [0, 0, 0, 0] = None"
    "openslide_bgr24_to_argb32_avx2 [1, 2, 3] 3 [0, 0, 0, 0] = None"
    "bgr24_to_argb32_neon [1, 2, 3] 3 [0, 0, 0, 0] = None"
    "openslide_gray16_to_gray8_sse2 [0x34, 0x12] 2 16 [0] = None"
    "openslide_gray16_to_gray8_avx2 [0x34, 0x12] 2 16 [0] = None"
    by (simp_all add: bgr24_ssse3_short bgr24_avx2_short bgr24_neon_short
        gray16_sse2_short gray16_avx2_short)
  from w g v0 v1 show ?thesis by simp
qed

subsection \<open>Saturation in the gray reduction\<close>

text \<open>
  For one sample and a shift of at least 1, the vector instructions compute the value
  of \<^verbatim>\<open>gray16togray8\<close>: the shifted lane has bit 15 clear, so its high byte is not
  negative as a signed byte, and the signed comparison with 0 tells whether the high
  byte is zero. At a shift of 0 the argument fails.
\<close>

lemma srl16_no_top_bit: "1 \<le> n \<Longrightarrow> \<not> bit (srl16 lo hi n) 15"
  using bit_imp_le_length [of "u16_of lo hi" "nat n + 15"]
  by (auto simp: srl16_def bit_simps)

lemma high_byte_no_sign:
  "\<not> bit (v :: 16 word) 15 \<Longrightarrow> \<not> bit (ucast (drop_bit 8 v) :: 8 word) 7"
  by (simp add: bit_simps)

lemma sint_pos_iff:
  assumes "\<not> bit (h :: 8 word) 7"
  shows "(sint h > 0) = (h \<noteq> 0)"
proof -
  have "sint h = signed_take_bit 7 (uint h)" by (simp add: sint_uint)
  also have "\<dots> = take_bit 7 (uint h)"
    using assms by (simp add: signed_take_bit_eq_if_positive bit_uint_iff)
  also have "\<dots> = uint h"
  proof (rule bit_eqI)
    fix n
    show "bit (take_bit 7 (uint h)) n = bit (uint h) n"
      using assms bit_imp_le_length [of h n]
      by (cases "n = 7") (auto simp: bit_simps bit_uint_iff)
  qed
  finally have "sint h = uint h" .
  moreover have "(0 < uint h) = (h \<noteq> 0)"
    by (metis uint_0_iff uint_nonnegative order_less_le)
  ultimately show ?thesis by simp
qed

lemma above_255_iff: "((v :: 16 word) > 255) = ((ucast (drop_bit 8 v) :: 8 word) \<noteq> 0)"
proof -
  have "unat v < 2 ^ LENGTH(16)" by (rule unsigned_less)
  then have b: "unat v < 65536" by simp
  have "unat (ucast (drop_bit 8 v) :: 8 word) = take_bit 8 (unat v div 256)"
    by (simp add: unsigned_ucast_eq unat_drop_bit_eq drop_bit_eq_div unat_div)
  also have "\<dots> = unat v div 256"
    using b by (simp add: take_bit_nat_eq_self)
  finally have u: "unat (ucast (drop_bit 8 v) :: 8 word) = unat v div 256" .
  have "((ucast (drop_bit 8 v) :: 8 word) \<noteq> 0) = (unat v div 256 \<noteq> 0)"
    using u by (metis unat_0_iff)
  also have "\<dots> = (255 < unat v)" by auto
  also have "\<dots> = (255 < v)" by (simp add: word_less_nat_alt)
  finally show ?thesis by simp
qed

lemma srl16_drop_bit: "0 \<le> n \<Longrightarrow> srl16 lo hi n = drop_bit (nat n) (u16_of lo hi)"
proof (cases "15 < n")
  case True
  have "drop_bit (nat n) (u16_of lo hi) = 0"
  proof (rule bit_eqI)
    fix k
    show "bit (drop_bit (nat n) (u16_of lo hi)) k = bit (0 :: 16 word) k"
      using True bit_imp_le_length [of "u16_of lo hi" "nat n + k"] by (auto simp: bit_simps)
  qed
  with True show ?thesis by (simp add: srl16_def)
next
  case False
  assume "0 \<le> n"
  with False show ?thesis by (simp add: srl16_def)
qed

lemma or_255: "(255 :: 8 word) OR x = 255"
proof -
  have m: "(255 :: 8 word) = - 1" by simp
  show ?thesis unfolding m by simp
qed

lemma gray16_vector_sample_scalar:
  assumes "1 \<le> n"
  shows "gray16_vector_sample lo hi n = gray16_scalar_sample lo hi n"
proof -
  define v where "v = srl16 lo hi n"
  have d: "drop_bit (nat n) (u16_of lo hi) = v" using assms by (simp add: v_def srl16_drop_bit)
  have "\<not> bit (ucast (drop_bit 8 v) :: 8 word) 7"
    using assms by (simp add: v_def high_byte_no_sign srl16_no_top_bit)
  then have "(sint (ucast (drop_bit 8 v) :: 8 word) > 0) = (v > 255)"
    by (simp add: sint_pos_iff above_255_iff)
  then show ?thesis
    by (simp add: gray16_vector_sample_def gray16_scalar_sample_def sign_mask_def Let_def d
        v_def [symmetric] or_255)
qed

text \<open>The sample 0x8000 at a shift of 0: 255 in the scalar kernel, 0 in a vector step.\<close>

lemma gray16_samples_differ_at_shift_0:
  "gray16_scalar_sample 0x00 0x80 0 = 255" "gray16_vector_sample 0x00 0x80 0 = 0"
  by (simp_all add: gray16_scalar_sample_def gray16_vector_sample_def sign_mask_def srl16_def
      u16_of_def Let_def)

text \<open>The vector instructions on registers given byte by byte.\<close>

lemma shuffle_lo8:
  "mm_shuffle_epi8 [t0, t1, t2, t3, t4, t5, t6, t7, t8, t9, t10, t11, t12, t13, t14, t15] lo8 =
     [t0, t2, t4, t6, t8, t10, t12, t14, 0, 0, 0, 0, 0, 0, 0, 0]"
  by (simp add: mm_shuffle_epi8_def lo8_def)

lemma shuffle_hi8:
  "mm_shuffle_epi8 [t0, t1, t2, t3, t4, t5, t6, t7, t8, t9, t10, t11, t12, t13, t14, t15] hi8 =
     [t1, t3, t5, t7, t9, t11, t13, t15, 0, 0, 0, 0, 0, 0, 0, 0]"
  by (simp add: mm_shuffle_epi8_def hi8_def)

lemma replicate_16: "replicate 16 x = [x, x, x, x, x, x, x, x, x, x, x, x, x, x, x, x]"
  by (simp add: numeral_eq_Suc)

lemma cmpgt_zero_16:
  "mm_cmpgt_epi8 [h0, h1, h2, h3, h4, h5, h6, h7, 0, 0, 0, 0, 0, 0, 0, 0] (replicate 16 0) =
     [sign_mask h0, sign_mask h1, sign_mask h2, sign_mask h3, sign_mask h4, sign_mask h5,
      sign_mask h6, sign_mask h7, 0, 0, 0, 0, 0, 0, 0, 0]"
  by (simp add: mm_cmpgt_epi8_def replicate_16 sign_mask_def split del: if_split)

lemma or_16:
  "mm_or [m0, m1, m2, m3, m4, m5, m6, m7, 0, 0, 0, 0, 0, 0, 0, 0]
         [g0, g1, g2, g3, g4, g5, g6, g7, 0, 0, 0, 0, 0, 0, 0, 0] =
     [m0 OR g0, m1 OR g1, m2 OR g2, m3 OR g3, m4 OR g4, m5 OR g5, m6 OR g6, m7 OR g7,
      0, 0, 0, 0, 0, 0, 0, 0]"
  by (simp add: mm_or_def)

lemma srli_16:
  "srli_epi16 [x0, x1, x2, x3, x4, x5, x6, x7, x8, x9, x10, x11, x12, x13, x14, x15] n =
     [ucast (srl16 x0 x1 n), ucast (drop_bit 8 (srl16 x0 x1 n)),
      ucast (srl16 x2 x3 n), ucast (drop_bit 8 (srl16 x2 x3 n)),
      ucast (srl16 x4 x5 n), ucast (drop_bit 8 (srl16 x4 x5 n)),
      ucast (srl16 x6 x7 n), ucast (drop_bit 8 (srl16 x6 x7 n)),
      ucast (srl16 x8 x9 n), ucast (drop_bit 8 (srl16 x8 x9 n)),
      ucast (srl16 x10 x11 n), ucast (drop_bit 8 (srl16 x10 x11 n)),
      ucast (srl16 x12 x13 n), ucast (drop_bit 8 (srl16 x12 x13 n)),
      ucast (srl16 x14 x15 n), ucast (drop_bit 8 (srl16 x14 x15 n))]"
  by (simp add: Let_def)

lemma gray16_vector_sample_unfold:
  "gray16_vector_sample lo hi n =
     sign_mask (ucast (drop_bit 8 (srl16 lo hi n))) OR ucast (srl16 lo hi n)"
  by (simp add: gray16_vector_sample_def Let_def)

lemma gray16_sse2_step_samples:
  "gray16_sse2_step [x0, x1, x2, x3, x4, x5, x6, x7, x8, x9, x10, x11, x12, x13, x14, x15] n =
     [gray16_vector_sample x0 x1 n, gray16_vector_sample x2 x3 n, gray16_vector_sample x4 x5 n,
      gray16_vector_sample x6 x7 n, gray16_vector_sample x8 x9 n, gray16_vector_sample x10 x11 n,
      gray16_vector_sample x12 x13 n, gray16_vector_sample x14 x15 n,
      0, 0, 0, 0, 0, 0, 0, 0]"
  by (simp only: gray16_sse2_step_def Let_def srli_16 shuffle_lo8 shuffle_hi8 cmpgt_zero_16 or_16
      gray16_vector_sample_unfold)

text \<open>
  With a shift of at least 1, a step of the SSE2 loop on 16 bytes produces the eight
  bytes the scalar kernel produces for the eight samples, followed by eight bytes 0
  that the next step or the scalar tail overwrites.
\<close>

lemma gray16_sse2_step_scalar:
  assumes "1 \<le> n"
  shows "gray16_sse2_step [x0, x1, x2, x3, x4, x5, x6, x7, x8, x9, x10, x11, x12, x13, x14, x15] n =
     [gray16_scalar_sample x0 x1 n, gray16_scalar_sample x2 x3 n, gray16_scalar_sample x4 x5 n,
      gray16_scalar_sample x6 x7 n, gray16_scalar_sample x8 x9 n, gray16_scalar_sample x10 x11 n,
      gray16_scalar_sample x12 x13 n, gray16_scalar_sample x14 x15 n,
      0, 0, 0, 0, 0, 0, 0, 0]"
  by (simp only: gray16_sse2_step_samples gray16_vector_sample_scalar [OF assms])

lemma srli_append_16:
  "srli_epi16 ([x0, x1, x2, x3, x4, x5, x6, x7, x8, x9, x10, x11, x12, x13, x14, x15] @ ys) n =
     srli_epi16 [x0, x1, x2, x3, x4, x5, x6, x7, x8, x9, x10, x11, x12, x13, x14, x15] n @
     srli_epi16 ys n"
  by (simp add: Let_def)

lemma shuffle256_append:
  "length a = 16 \<Longrightarrow> length m = 16 \<Longrightarrow>
   mm256_shuffle_epi8 (a @ a') (m @ m') = mm_shuffle_epi8 a m @ mm_shuffle_epi8 a' m'"
  by (simp add: mm256_shuffle_epi8_def)

lemma cmpgt_zero_append:
  "length a = 16 \<Longrightarrow>
   mm_cmpgt_epi8 (a @ a') (replicate 32 0) =
     mm_cmpgt_epi8 a (replicate 16 0) @ mm_cmpgt_epi8 a' (replicate 16 0)"
proof -
  assume "length a = 16"
  moreover have "replicate 32 (0 :: 8 word) = replicate 16 0 @ replicate 16 0"
    using replicate_add [of 16 16 "0 :: 8 word"] by simp
  ultimately show ?thesis by (simp add: mm_cmpgt_epi8_def)
qed

lemma or_append:
  "length a = length c \<Longrightarrow> mm_or (a @ b) (c @ d) = mm_or a c @ mm_or b d"
  by (simp add: mm_or_def)

lemma upt_0_4: "[0 ..< 4] = [0, 1, 2, 3]"
  by code_simp

lemma permute4x64_0x08:
  "mm256_permute4x64_epi64
     [p0, p1, p2, p3, p4, p5, p6, p7, p8, p9, p10, p11, p12, p13, p14, p15,
      p16, p17, p18, p19, p20, p21, p22, p23, p24, p25, p26, p27, p28, p29, p30, p31] 0x08 =
     [p0, p1, p2, p3, p4, p5, p6, p7, p16, p17, p18, p19, p20, p21, p22, p23,
      p0, p1, p2, p3, p4, p5, p6, p7, p0, p1, p2, p3, p4, p5, p6, p7]"
  by (simp add: mm256_permute4x64_epi64_def qword_def upt_0_4)

text \<open>
  A step of the AVX2 loop on 32 bytes: the sixteen converted samples, then bytes that
  the next step or the scalar tail overwrites.
\<close>

lemma gray16_avx2_step_samples:
  "gray16_avx2_step
     [x0, x1, x2, x3, x4, x5, x6, x7, x8, x9, x10, x11, x12, x13, x14, x15,
      y0, y1, y2, y3, y4, y5, y6, y7, y8, y9, y10, y11, y12, y13, y14, y15] n =
     [gray16_vector_sample x0 x1 n, gray16_vector_sample x2 x3 n, gray16_vector_sample x4 x5 n,
      gray16_vector_sample x6 x7 n, gray16_vector_sample x8 x9 n, gray16_vector_sample x10 x11 n,
      gray16_vector_sample x12 x13 n, gray16_vector_sample x14 x15 n,
      gray16_vector_sample y0 y1 n, gray16_vector_sample y2 y3 n, gray16_vector_sample y4 y5 n,
      gray16_vector_sample y6 y7 n, gray16_vector_sample y8 y9 n, gray16_vector_sample y10 y11 n,
      gray16_vector_sample y12 y13 n, gray16_vector_sample y14 y15 n,
      gray16_vector_sample x0 x1 n, gray16_vector_sample x2 x3 n, gray16_vector_sample x4 x5 n,
      gray16_vector_sample x6 x7 n, gray16_vector_sample x8 x9 n, gray16_vector_sample x10 x11 n,
      gray16_vector_sample x12 x13 n, gray16_vector_sample x14 x15 n,
      gray16_vector_sample x0 x1 n, gray16_vector_sample x2 x3 n, gray16_vector_sample x4 x5 n,
      gray16_vector_sample x6 x7 n, gray16_vector_sample x8 x9 n, gray16_vector_sample x10 x11 n,
      gray16_vector_sample x12 x13 n, gray16_vector_sample x14 x15 n]"
proof -
  let ?X = "[x0, x1, x2, x3, x4, x5, x6, x7, x8, x9, x10, x11, x12, x13, x14, x15]"
  let ?Y = "[y0, y1, y2, y3, y4, y5, y6, y7, y8, y9, y10, y11, y12, y13, y14, y15]"
  have ls: "length (srli_epi16 ?X n) = 16" by (simp only: srli_16) simp
  have l8: "length lo8 = 16" "length hi8 = 16" by (simp_all add: lo8_def hi8_def)
  have lh: "length (mm_shuffle_epi8 (srli_epi16 ?X n) hi8) = 16"
    by (simp add: mm_shuffle_epi8_def hi8_def)
  have lc: "length (mm_cmpgt_epi8 (mm_shuffle_epi8 (srli_epi16 ?X n) hi8) (replicate 16 0)) =
      length (mm_shuffle_epi8 (srli_epi16 ?X n) lo8)"
    by (simp add: mm_cmpgt_epi8_def mm_shuffle_epi8_def hi8_def lo8_def)
  have "gray16_avx2_step (?X @ ?Y) n =
      mm256_permute4x64_epi64 (gray16_sse2_step ?X n @ gray16_sse2_step ?Y n) 0x08"
    by (simp only: gray16_avx2_step_def gray16_sse2_step_def Let_def srli_append_16
        shuffle256_append [OF ls l8(1)] shuffle256_append [OF ls l8(2)]
        cmpgt_zero_append [OF lh] or_append [OF lc])
  then have "gray16_avx2_step (?X @ ?Y) n =
      mm256_permute4x64_epi64
        [gray16_vector_sample x0 x1 n, gray16_vector_sample x2 x3 n, gray16_vector_sample x4 x5 n,
         gray16_vector_sample x6 x7 n, gray16_vector_sample x8 x9 n, gray16_vector_sample x10 x11 n,
         gray16_vector_sample x12 x13 n, gray16_vector_sample x14 x15 n,
         0, 0, 0, 0, 0, 0, 0, 0,
         gray16_vector_sample y0 y1 n, gray16_vector_sample y2 y3 n, gray16_vector_sample y4 y5 n,
         gray16_vector_sample y6 y7 n, gray16_vector_sample y8 y9 n, gray16_vector_sample y10 y11 n,
         gray16_vector_sample y12 y13 n, gray16_vector_sample y14 y15 n,
         0, 0, 0, 0, 0, 0, 0, 0] 0x08"
    by (simp only: gray16_sse2_step_samples append.simps)
  then show ?thesis
    by (simp only: permute4x64_0x08 append.simps)
qed

lemma gray16_avx2_step_scalar:
  assumes "1 \<le> n"
  shows "take 16 (gray16_avx2_step
     [x0, x1, x2, x3, x4, x5, x6, x7, x8, x9, x10, x11, x12, x13, x14, x15,
      y0, y1, y2, y3, y4, y5, y6, y7, y8, y9, y10, y11, y12, y13, y14, y15] n) =
     [gray16_scalar_sample x0 x1 n, gray16_scalar_sample x2 x3 n, gray16_scalar_sample x4 x5 n,
      gray16_scalar_sample x6 x7 n, gray16_scalar_sample x8 x9 n, gray16_scalar_sample x10 x11 n,
      gray16_scalar_sample x12 x13 n, gray16_scalar_sample x14 x15 n,
      gray16_scalar_sample y0 y1 n, gray16_scalar_sample y2 y3 n, gray16_scalar_sample y4 y5 n,
      gray16_scalar_sample y6 y7 n, gray16_scalar_sample y8 y9 n, gray16_scalar_sample y10 y11 n,
      gray16_scalar_sample y12 y13 n, gray16_scalar_sample y14 y15 n]"
  by (simp add: gray16_avx2_step_samples gray16_vector_sample_scalar [OF assms])

text \<open>
  Claim C7, at an input where the code departs from it. The real bit depth is 8, so
  the shift is 0, and a sample is 0x8000. The scalar kernel saturates it to 255. In a
  vector step the high byte 0x80 of the sample is compared with 0 as a signed byte,
  \<^verbatim>\<open>_mm_cmpgt_epi8\<close>, and is not greater: the mask is 0 and the output is the low
  byte, 0. In the 32 bytes below, the SSE2 variant converts the first eight samples in
  its vector loop; in the 64 bytes, the AVX2 variant converts the first sixteen in its
  vector loop and the sample 0x8000 among the last sixteen in its scalar tail.
  For a shift of at least 1 a vector step and the scalar kernel agree on every sample,
  as shown above.
\<close>

theorem gray16_vector_no_saturation_at_shift_0:
  "gray16_to_gray8_generic ([0x00, 0x80] @ replicate 30 0) 32 8 (replicate 16 0) =
     Some (0xFF # replicate 15 0) \<and>
   openslide_gray16_to_gray8_sse2 ([0x00, 0x80] @ replicate 30 0) 32 8 (replicate 16 0) =
     Some (0x00 # replicate 15 0) \<and>
   gray16_to_gray8_generic
     ([0x00, 0x80] @ replicate 30 0 @ [0x00, 0x80] @ replicate 30 0) 64 8 (replicate 32 0) =
     Some (0xFF # replicate 15 0 @ 0xFF # replicate 15 0) \<and>
   openslide_gray16_to_gray8_avx2
     ([0x00, 0x80] @ replicate 30 0 @ [0x00, 0x80] @ replicate 30 0) 64 8 (replicate 32 0) =
     Some (0x00 # replicate 15 0 @ 0xFF # replicate 15 0)"
  by code_simp

end
